theory Spec2Isabelle
  imports Complex_Main "HOL-Library.Log_Nat" "HOL-Library.Word"
begin

section \<open>JavaScript numbers\<close>

text \<open>
  Every number of the scorer is an IEEE 754 binary64 value. A finite double is modelled by
  the rational it denotes, and each arithmetic operation returns the exact result rounded
  to 53 significant bits, ties to even. The scorer adds, subtracts and multiplies a few
  numbers between 0.2 and 20 and divides a length by 12, far from the thresholds of
  overflow and underflow, so the exponent is left unbounded; no NaN or infinity arises,
  and the sign of a zero is not observable through the comparisons, \<open>Math.min\<close>,
  \<open>Math.max\<close>, \<open>+\<close> or \<open>*\<close>.
\<close>

type_synonym js_number = rat

text \<open>The binary exponent of a positive rational: \<open>2 powi e \<le> x < 2 powi (e + 1)\<close>.\<close>

definition ilog2 :: "rat \<Rightarrow> int" where
  "ilog2 x = (if 1 \<le> x then bitlen \<lfloor>x\<rfloor> - 1 else - bitlen (\<lceil>1 / x\<rceil> - 1))"

definition roundHalfEven :: "rat \<Rightarrow> int" where
  "roundHalfEven m =
     (let k = \<lfloor>m\<rfloor>; f = m - of_int k
      in if f < 1 / 2 then k else if 1 / 2 < f then k + 1
         else if even k then k else k + 1)"

text \<open>Rounding to the nearest double, ties to even.\<close>

definition rnd :: "rat \<Rightarrow> js_number" where
  "rnd x =
     (if x = 0 then 0
      else let u = 2 powi (ilog2 \<bar>x\<bar> - 52)
           in sgn x * of_int (roundHalfEven (\<bar>x\<bar> / u)) * u)"

text \<open>A decimal literal of the source denotes the double nearest to it.\<close>

definition lit :: "rat \<Rightarrow> js_number" where
  "lit d = rnd d"

definition fl_add :: "js_number \<Rightarrow> js_number \<Rightarrow> js_number" where
  "fl_add x y = rnd (x + y)"

definition fl_sub :: "js_number \<Rightarrow> js_number \<Rightarrow> js_number" where
  "fl_sub x y = rnd (x - y)"

definition fl_mul :: "js_number \<Rightarrow> js_number \<Rightarrow> js_number" where
  "fl_mul x y = rnd (x * y)"

definition fl_div :: "js_number \<Rightarrow> js_number \<Rightarrow> js_number" where
  "fl_div x y = rnd (x / y)"


section \<open>JavaScript strings and the regular expressions of the scorer\<close>

text \<open>
  A string is a sequence of UTF-16 code units; \<open>password.length\<close> counts code units, and
  a regular expression without the \<open>u\<close> flag matches code unit by code unit.
\<close>

type_synonym js_string = "16 word list"

definition js :: "string \<Rightarrow> js_string" where
  "js s = map of_char s"

definition is_lower :: "16 word \<Rightarrow> bool" where
  "is_lower c = (0x61 \<le> c \<and> c \<le> 0x7A)"

definition is_upper :: "16 word \<Rightarrow> bool" where
  "is_upper c = (0x41 \<le> c \<and> c \<le> 0x5A)"

definition is_digit :: "16 word \<Rightarrow> bool" where
  "is_digit c = (0x30 \<le> c \<and> c \<le> 0x39)"

definition is_letter :: "16 word \<Rightarrow> bool" where
  "is_letter c = (is_lower c \<or> is_upper c)"

text \<open>
  The class \<^verbatim>\<open>[!@#$%^&*()_+\-=\[\]{};':"\\|,.<>\/?]\<close>, in the order of the source.
\<close>

definition specialChars :: "16 word list" where
  "specialChars =
     [0x21, 0x40, 0x23, 0x24, 0x25, 0x5E, 0x26, 0x2A, 0x28, 0x29, 0x5F, 0x2B, 0x2D, 0x3D,
      0x5B, 0x5D, 0x7B, 0x7D, 0x3B, 0x27, 0x3A, 0x22, 0x5C, 0x7C, 0x2C, 0x2E, 0x3C, 0x3E,
      0x2F, 0x3F]"

definition is_special :: "16 word \<Rightarrow> bool" where
  "is_special c = (c \<in> set specialChars)"

text \<open>\<^verbatim>\<open>/[...]/.test(s)\<close>: some code unit of \<open>s\<close> is in the class.\<close>

definition test_class :: "(16 word \<Rightarrow> bool) \<Rightarrow> js_string \<Rightarrow> bool" where
  "test_class cls s = list_ex cls s"

text \<open>\<^verbatim>\<open>/lit/.test(s)\<close> for a pattern of literal characters: a match at some position.\<close>

fun matchesAt :: "js_string \<Rightarrow> js_string \<Rightarrow> bool" where
  "matchesAt [] s = True"
| "matchesAt (c # cs) [] = False"
| "matchesAt (c # cs) (x # xs) = (c = x \<and> matchesAt cs xs)"

fun test_literal :: "js_string \<Rightarrow> js_string \<Rightarrow> bool" where
  "test_literal pat [] = matchesAt pat []"
| "test_literal pat (x # xs) = (matchesAt pat (x # xs) \<or> test_literal pat xs)"

text \<open>
  With the \<open>i\<close> flag and without \<open>u\<close>, two code units match when their canonical forms
  agree. The canonical form of an ASCII letter is its upper case; a code unit outside
  ASCII is never canonicalised into ASCII, so against the ASCII patterns of the source it
  is enough to leave it in place.
\<close>

definition canonicalize :: "16 word \<Rightarrow> 16 word" where
  "canonicalize c = (if is_lower c then c - 0x20 else c)"

definition test_literal_i :: "js_string \<Rightarrow> js_string \<Rightarrow> bool" where
  "test_literal_i pat s = test_literal (map canonicalize pat) (map canonicalize s)"

text \<open>
  \<open>.\<close> matches every code unit but the line terminators LF, CR, U+2028 and U+2029.
\<close>

definition lineTerminator :: "16 word \<Rightarrow> bool" where
  "lineTerminator c = (c = 0x0A \<or> c = 0x0D \<or> c = 0x2028 \<or> c = 0x2029)"

text \<open>
  \<^verbatim>\<open>/(.)\1{2,}/.test(s)\<close>: at some position a code unit that \<open>.\<close> matches is followed by
  at least two copies of itself.
\<close>

fun test_repeat :: "js_string \<Rightarrow> bool" where
  "test_repeat (a # b # c # s) =
     ((\<not> lineTerminator a \<and> b = a \<and> c = a) \<or> test_repeat (b # c # s))"
| "test_repeat s = False"

text \<open>
  \<open>String.prototype.toLowerCase\<close>. On ASCII it maps \<open>A\<close>-\<open>Z\<close> to \<open>a\<close>-\<open>z\<close>. Outside ASCII
  only two characters have a lower case that contains an ASCII letter: U+0130, which
  becomes \<open>i\<close> followed by U+0307, and the Kelvin sign U+212A, which becomes \<open>k\<close>. Every
  other character outside ASCII is mapped to characters outside ASCII and so can neither
  create nor destroy an occurrence of an ASCII pattern; such code units are left in place.
\<close>

definition lowerUnit :: "16 word \<Rightarrow> js_string" where
  "lowerUnit c =
     (if is_upper c then [c + 0x20]
      else if c = 0x130 then [0x69, 0x307]
      else if c = 0x212A then [0x6B]
      else [c])"

definition toLowerCase :: "js_string \<Rightarrow> js_string" where
  "toLowerCase s = concat (map lowerUnit s)"


section \<open>The configuration\<close>

datatype rule = Length | Lowercase | Uppercase | Number | Special | Complexity

record requirement =
  weight :: js_number
  message :: string

record config =
  minLength :: nat
  maxLength :: nat
  requirements :: "rule \<Rightarrow> requirement"

definition passwordStrengthConfig :: config where
  "passwordStrengthConfig =
     \<lparr> minLength = 8,
       maxLength = 128,
       requirements = (\<lambda>r. case r of
           Length \<Rightarrow> \<lparr> weight = 20, message = ''At least 8 characters'' \<rparr>
         | Lowercase \<Rightarrow> \<lparr> weight = 15, message = ''One lowercase letter (a-z)'' \<rparr>
         | Uppercase \<Rightarrow> \<lparr> weight = 15, message = ''One uppercase letter (A-Z)'' \<rparr>
         | Number \<Rightarrow> \<lparr> weight = 15, message = ''One number (0-9)'' \<rparr>
         | Special \<Rightarrow> \<lparr> weight = 15, message = ''One special character (!@#$%^&*)'' \<rparr>
         | Complexity \<Rightarrow> \<lparr> weight = 20, message = ''Avoid common patterns'' \<rparr>) \<rparr>"


section \<open>The scorer\<close>

definition commonPatterns :: "js_string list" where
  "commonPatterns =
     [js ''123'', js ''abc'', js ''qwerty'', js ''password'', js ''admin'', js ''user'']"

definition sequentialPatterns :: "js_string list" where
  "sequentialPatterns = map js
     [''abc'', ''bcd'', ''cde'', ''def'', ''efg'', ''fgh'', ''ghi'', ''hij'', ''ijk'',
      ''jkl'', ''klm'', ''lmn'', ''mno'', ''nop'', ''opq'', ''pqr'', ''qrs'', ''rst'',
      ''stu'', ''tuv'', ''uvw'', ''vwx'', ''wxy'', ''xyz'',
      ''012'', ''123'', ''234'', ''345'', ''456'', ''567'', ''678'', ''789'']"

text \<open>\<^verbatim>\<open>commonPatterns.some((pattern) => pattern.test(password.toLowerCase()))\<close>\<close>

definition hasCommonPattern :: "js_string \<Rightarrow> bool" where
  "hasCommonPattern password =
     list_ex (\<lambda>pattern. test_literal pattern (toLowerCase password)) commonPatterns"

definition hasRepeats :: "js_string \<Rightarrow> bool" where
  "hasRepeats password = test_repeat password"

text \<open>The alternation \<^verbatim>\<open>/(?:abc|bcd|...|789)/i\<close> matches when one alternative does.\<close>

definition hasSequential :: "js_string \<Rightarrow> bool" where
  "hasSequential password =
     list_ex (\<lambda>alt. test_literal_i alt password) sequentialPatterns"

text \<open>
  \<open>calculateComplexity\<close> in its two parts: the local variable \<open>complexity\<close> as the
  penalties and bonuses leave it, and the \<open>return\<close> statement, which adds the baseline and
  clamps.
\<close>

definition complexityBeforeClamp :: "js_string \<Rightarrow> js_number" where
  "complexityBeforeClamp password =
     (let complexity = 0;
          complexity = (if hasCommonPattern password
                        then fl_sub complexity (lit (3 / 10)) else complexity);
          complexity = (if hasRepeats password
                        then fl_sub complexity (lit (2 / 10)) else complexity);
          complexity = (if hasSequential password
                        then fl_sub complexity (lit (2 / 10)) else complexity);
          complexity = (if test_class is_lower password \<and> test_class is_upper password
                        then fl_add complexity (lit (2 / 10)) else complexity);
          complexity = (if test_class is_digit password \<and> test_class is_letter password
                        then fl_add complexity (lit (2 / 10)) else complexity);
          complexity = (if 12 \<le> length password
                        then fl_add complexity (lit (3 / 10)) else complexity);
          complexity = (if 16 \<le> length password
                        then fl_add complexity (lit (2 / 10)) else complexity)
      in complexity)"

definition calculateComplexity :: "js_string \<Rightarrow> js_number" where
  "calculateComplexity password =
     max 0 (min 1 (fl_add (complexityBeforeClamp password) (lit (7 / 10))))"

text \<open>The length term: a ramp that reaches the rule's weight at 12 code units.\<close>

definition lengthScore :: "js_string \<Rightarrow> js_number" where
  "lengthScore password =
     (let req = requirements passwordStrengthConfig
      in min (fl_mul (fl_div (of_nat (length password)) 12) (weight (req Length)))
             (weight (req Length)))"

text \<open>
  \<open>validatePasswordStrength\<close> ends by handing \<open>results\<close> and \<open>totalScore\<close> to the display
  routine; the model returns this pair.
\<close>

definition validatePasswordStrength :: "js_string \<Rightarrow> (rule \<rightharpoonup> bool) \<times> js_number" where
  "validatePasswordStrength password =
     (let req = requirements passwordStrengthConfig;
          totalScore = 0;
          results = Map.empty;
          results = results(Length \<mapsto> 8 \<le> length password);
          totalScore = fl_add totalScore (lengthScore password);
          lowercase = test_class is_lower password;
          results = results(Lowercase \<mapsto> lowercase);
          totalScore = (if lowercase then fl_add totalScore (weight (req Lowercase))
                        else totalScore);
          uppercase = test_class is_upper password;
          results = results(Uppercase \<mapsto> uppercase);
          totalScore = (if uppercase then fl_add totalScore (weight (req Uppercase))
                        else totalScore);
          number = test_class is_digit password;
          results = results(Number \<mapsto> number);
          totalScore = (if number then fl_add totalScore (weight (req Number))
                        else totalScore);
          special = test_class is_special password;
          results = results(Special \<mapsto> special);
          totalScore = (if special then fl_add totalScore (weight (req Special))
                        else totalScore);
          complexityScore = calculateComplexity password;
          results = results(Complexity \<mapsto> lit (7 / 10) < complexityScore);
          totalScore = fl_add totalScore
                         (fl_mul complexityScore (weight (req Complexity)))
      in (results, totalScore))"

definition calculatePasswordStrength :: "js_string \<Rightarrow> js_number" where
  "calculatePasswordStrength password =
     (let req = requirements passwordStrengthConfig;
          score = 0;
          score = (if 8 \<le> length password then fl_add score (weight (req Length))
                   else score);
          score = (if test_class is_lower password
                   then fl_add score (weight (req Lowercase)) else score);
          score = (if test_class is_upper password
                   then fl_add score (weight (req Uppercase)) else score);
          score = (if test_class is_digit password
                   then fl_add score (weight (req Number)) else score);
          score = (if test_class is_special password
                   then fl_add score (weight (req Special)) else score);
          complexityScore = calculateComplexity password;
          score = fl_add score (fl_mul complexityScore (weight (req Complexity)))
      in score)"


section \<open>The scorer's arithmetic and tests, taken apart\<close>

text \<open>
  The four character-class steps of both scorers: each adds its weight to the running
  total when its class is present.
\<close>

definition addIf :: "bool \<Rightarrow> js_number \<Rightarrow> js_number \<Rightarrow> js_number" where
  "addIf b w t = (if b then fl_add t w else t)"

definition classTerms :: "js_string \<Rightarrow> js_number \<Rightarrow> js_number" where
  "classTerms p t =
     addIf (test_class is_special p) 15 (addIf (test_class is_digit p) 15
       (addIf (test_class is_upper p) 15 (addIf (test_class is_lower p) 15 t)))"

text \<open>
  The arithmetic of \<open>calculateComplexity\<close> as a function of the outcomes of its tests.
\<close>

definition complexityOf :: "bool \<Rightarrow> bool \<Rightarrow> bool \<Rightarrow> bool \<Rightarrow> bool \<Rightarrow> nat \<Rightarrow> js_number" where
  "complexityOf common repeats sequential mixedCase digitLetter len =
     (let complexity = 0;
          complexity = (if common then fl_sub complexity (lit (3 / 10)) else complexity);
          complexity = (if repeats then fl_sub complexity (lit (2 / 10)) else complexity);
          complexity = (if sequential then fl_sub complexity (lit (2 / 10)) else complexity);
          complexity = (if mixedCase then fl_add complexity (lit (2 / 10)) else complexity);
          complexity = (if digitLetter then fl_add complexity (lit (2 / 10)) else complexity);
          complexity = (if 12 \<le> len then fl_add complexity (lit (3 / 10)) else complexity);
          complexity = (if 16 \<le> len then fl_add complexity (lit (2 / 10)) else complexity)
      in max 0 (min 1 (fl_add complexity (lit (7 / 10)))))"

text \<open>
  Some code unit occurs three times in a row; the same for a line terminator.
\<close>

definition tripleRun :: "js_string \<Rightarrow> bool" where
  "tripleRun s = (\<exists>i < length s - 2. s ! (i + 1) = s ! i \<and> s ! (i + 2) = s ! i)"

definition lineTerminatorRun :: "js_string \<Rightarrow> bool" where
  "lineTerminatorRun s =
     (\<exists>i < length s - 2. lineTerminator (s ! i) \<and> s ! (i + 1) = s ! i \<and> s ! (i + 2) = s ! i)"


section \<open>The complexity formula in the words of the specification\<close>

text \<open>
  The formula of the specification in exact arithmetic, as a function of the outcomes of
  the five tests and of the length.
\<close>

definition complexityFormula :: "bool \<Rightarrow> bool \<Rightarrow> bool \<Rightarrow> bool \<Rightarrow> bool \<Rightarrow> nat \<Rightarrow> rat" where
  "complexityFormula denylisted repeats ascending mixedCase digitLetter len =
     max 0 (min 1
       (7 / 10
        - (if denylisted then 3 / 10 else 0)
        - (if repeats then 2 / 10 else 0)
        - (if ascending then 2 / 10 else 0)
        + (if mixedCase then 2 / 10 else 0)
        + (if digitLetter then 2 / 10 else 0)
        + (if 12 \<le> len then 3 / 10 else 0)
        + (if 16 \<le> len then 2 / 10 else 0)))"

text \<open>The tests in the words of the specification: substrings and runs by position.\<close>

definition containsSubstring :: "js_string \<Rightarrow> js_string \<Rightarrow> bool" where
  "containsSubstring w s = (\<exists>i \<le> length s. take (length w) (drop i s) = w)"

definition denylist :: "js_string list" where
  "denylist = [js ''123'', js ''abc'', js ''qwerty'', js ''password'', js ''admin'', js ''user'']"

definition spec_denylisted :: "js_string \<Rightarrow> bool" where
  "spec_denylisted p = (\<exists>w \<in> set denylist. containsSubstring w (toLowerCase p))"

text \<open>Case is ignored by folding the ASCII upper case letters to lower case.\<close>

definition foldCase :: "16 word \<Rightarrow> 16 word" where
  "foldCase c = (if is_upper c then c + 0x20 else c)"

text \<open>Three letters, or three digits, each the successor of the one before.\<close>

definition ascending3 :: "16 word \<Rightarrow> 16 word \<Rightarrow> 16 word \<Rightarrow> bool" where
  "ascending3 a b c =
     (((is_lower a \<and> is_lower c) \<or> (is_digit a \<and> is_digit c)) \<and> b = a + 1 \<and> c = a + 2)"

definition spec_ascendingRun :: "js_string \<Rightarrow> bool" where
  "spec_ascendingRun p =
     (\<exists>i < length p - 2.
        ascending3 (foldCase (p ! i)) (foldCase (p ! (i + 1))) (foldCase (p ! (i + 2))))"

definition spec_mixedCase :: "js_string \<Rightarrow> bool" where
  "spec_mixedCase p = ((\<exists>c \<in> set p. is_lower c) \<and> (\<exists>c \<in> set p. is_upper c))"

definition spec_digitAndLetter :: "js_string \<Rightarrow> bool" where
  "spec_digitAndLetter p = ((\<exists>c \<in> set p. is_digit c) \<and> (\<exists>c \<in> set p. is_letter c))"

definition complexity_spec :: "js_string \<Rightarrow> rat" where
  "complexity_spec p =
     complexityFormula (spec_denylisted p) (tripleRun p) (spec_ascendingRun p)
       (spec_mixedCase p) (spec_digitAndLetter p) (length p)"

text \<open>
  The same run read on the canonical (upper case) forms that the regular expression
  compares.
\<close>

definition upperAscending :: "16 word \<Rightarrow> 16 word \<Rightarrow> 16 word \<Rightarrow> bool" where
  "upperAscending a b c =
     (((is_upper a \<and> is_upper c) \<or> (is_digit a \<and> is_digit c)) \<and> b = a + 1 \<and> c = a + 2)"


text \<open>
  The total in exact arithmetic on the rounded length term: the reference against which
  the rounding of the running total is measured.
\<close>

definition classSum :: "js_string \<Rightarrow> rat" where
  "classSum p =
     (if test_class is_lower p then 15 else 0) + (if test_class is_upper p then 15 else 0)
     + (if test_class is_digit p then 15 else 0) + (if test_class is_special p then 15 else 0)"

definition referenceTotal :: "js_string \<Rightarrow> rat" where
  "referenceTotal p =
     lengthScore p + classSum p
     + 20 * complexityFormula (hasCommonPattern p) (hasRepeats p) (hasSequential p)
         (test_class is_lower p \<and> test_class is_upper p)
         (test_class is_digit p \<and> test_class is_letter p) (length p)"

definition newClass :: "js_string \<Rightarrow> js_string \<Rightarrow> bool" where
  "newClass p s =
     ((test_class is_lower (p @ s) \<and> \<not> test_class is_lower p)
      \<or> (test_class is_upper (p @ s) \<and> \<not> test_class is_upper p)
      \<or> (test_class is_digit (p @ s) \<and> \<not> test_class is_digit p)
      \<or> (test_class is_special (p @ s) \<and> \<not> test_class is_special p))"


section \<open>Rounding to a double: exponent, monotonicity, error\<close>

lemma ilog2_bounds:
  assumes "0 < x"
  shows "2 powi ilog2 x \<le> x \<and> x < 2 powi (ilog2 x + 1)"
proof (cases "1 \<le> x")
  case True
  define n where "n = \<lfloor>x\<rfloor>"
  have n1: "1 \<le> n" using True by (simp add: n_def le_floor_iff)
  then have n0: "0 < n" by simp
  have b1: "1 \<le> bitlen n" using n0 by (simp add: bitlen_alt_def)
  have e: "ilog2 x = bitlen n - 1" using True by (simp add: ilog2_def n_def)
  from bitlen_bounds [OF n0] have lo: "2 ^ nat (bitlen n - 1) \<le> n" and hi: "n < 2 ^ nat (bitlen n)"
    by simp_all
  have "(2::rat) powi (bitlen n - 1) = 2 ^ nat (bitlen n - 1)"
    using b1 by (simp add: power_int_nonneg_exp)
  also have "\<dots> = of_int (2 ^ nat (bitlen n - 1))" by simp
  also have "\<dots> \<le> of_int n" using lo by (simp only: of_int_le_iff)
  also have "\<dots> \<le> x" by (simp add: n_def)
  finally have L: "2 powi (bitlen n - 1) \<le> x" .
  have "n + 1 \<le> 2 ^ nat (bitlen n)" using hi by simp
  then have "(of_int (n + 1) :: rat) \<le> of_int (2 ^ nat (bitlen n))" by (simp only: of_int_le_iff)
  moreover have "x < of_int (n + 1)" unfolding n_def by linarith
  ultimately have "x < of_int (2 ^ nat (bitlen n))" by linarith
  also have "\<dots> = 2 powi (bitlen n)" using b1 by (simp add: power_int_nonneg_exp)
  finally have U: "x < 2 powi (bitlen n)" .
  show ?thesis using L U by (simp add: e)
next
  case False
  define y where "y = 1 / x"
  have y1: "1 < y" using False assms by (simp add: y_def)
  define m where "m = \<lceil>y\<rceil> - 1"
  have m1: "1 \<le> m" using y1 unfolding m_def by linarith
  then have m0: "0 < m" by simp
  have my: "of_int m < y" "y \<le> of_int m + 1" unfolding m_def by linarith+
  have b1: "1 \<le> bitlen m" using m0 by (simp add: bitlen_alt_def)
  have e: "ilog2 x = - bitlen m" using False by (simp add: ilog2_def m_def y_def)
  from bitlen_bounds [OF m0] have lo: "2 ^ nat (bitlen m - 1) \<le> m" and hi: "m < 2 ^ nat (bitlen m)"
    by simp_all
  have x_eq: "x = 1 / y" by (simp add: y_def)
  have "m + 1 \<le> 2 ^ nat (bitlen m)" using hi by simp
  then have "(of_int (m + 1) :: rat) \<le> of_int (2 ^ nat (bitlen m))" by (simp only: of_int_le_iff)
  then have "y \<le> 2 ^ nat (bitlen m)" using my by simp
  then have "y \<le> 2 powi (bitlen m)" using b1 by (simp add: power_int_nonneg_exp)
  then have "1 / (2 powi (bitlen m)) \<le> 1 / y" using y1 by (intro divide_left_mono) auto
  then have L: "2 powi (- bitlen m) \<le> x" by (simp add: x_eq power_int_minus_divide)
  have "(of_int (2 ^ nat (bitlen m - 1)) :: rat) \<le> of_int m" using lo by (simp only: of_int_le_iff)
  then have "(2::rat) ^ nat (bitlen m - 1) \<le> of_int m" by simp
  then have "2 ^ nat (bitlen m - 1) < y" using my by linarith
  then have yl: "2 powi (bitlen m - 1) < y" using b1 by (simp add: power_int_nonneg_exp)
  have "1 / y < 1 / (2 powi (bitlen m - 1))"
    using yl y1 by (intro divide_strict_left_mono) (auto intro!: mult_pos_pos)
  moreover have "(2::rat) powi (- bitlen m + 1) = 1 / 2 powi (bitlen m - 1)"
    using power_int_minus_divide [of "2::rat" "bitlen m - 1"] by simp
  ultimately have U: "x < 2 powi (- bitlen m + 1)" by (simp add: x_eq)
  show ?thesis using L U by (simp add: e)
qed

lemma ilog2_unique:
  assumes "2 powi e \<le> x" "x < 2 powi (e + 1)"
  shows "ilog2 x = e"
proof -
  have x0: "0 < x" using assms(1) by (meson less_le_trans zero_less_power_int zero_less_numeral)
  note b = ilog2_bounds [OF x0]
  have "(2::rat) powi e < 2 powi (ilog2 x + 1)" using assms(1) b by linarith
  then have 1: "e < ilog2 x + 1"
    by (metis not_le one_le_numeral power_int_increasing)
  have "(2::rat) powi (ilog2 x) < 2 powi (e + 1)" using assms(2) b by linarith
  then have 2: "ilog2 x < e + 1"
    by (metis not_le one_le_numeral power_int_increasing)
  show ?thesis using 1 2 by simp
qed

lemma ilog2_mono:
  assumes "0 < x" "x \<le> y"
  shows "ilog2 x \<le> ilog2 y"
proof -
  have y0: "0 < y" using assms by simp
  have "(2::rat) powi (ilog2 x) < 2 powi (ilog2 y + 1)"
    using ilog2_bounds [OF assms(1)] ilog2_bounds [OF y0] assms(2) by linarith
  then have "ilog2 x < ilog2 y + 1"
    by (metis not_le one_le_numeral power_int_increasing)
  then show ?thesis by simp
qed

lemma roundHalfEven_bounds:
  "\<lfloor>m\<rfloor> \<le> roundHalfEven m \<and> roundHalfEven m \<le> \<lfloor>m\<rfloor> + 1"
  by (simp add: roundHalfEven_def Let_def)

lemma roundHalfEven_err: "\<bar>of_int (roundHalfEven m) - m\<bar> \<le> 1 / 2"
proof -
  have f: "0 \<le> m - of_int \<lfloor>m\<rfloor>" "m - of_int \<lfloor>m\<rfloor> < 1" by linarith+
  show ?thesis
    using f unfolding roundHalfEven_def Let_def by (simp add: abs_le_iff)
qed

lemma roundHalfEven_of_int [simp]: "roundHalfEven (of_int k) = k"
  by (simp add: roundHalfEven_def Let_def)

lemma roundHalfEven_mono:
  assumes "a \<le> b"
  shows "roundHalfEven a \<le> roundHalfEven b"
proof (cases "\<lfloor>a\<rfloor> < \<lfloor>b\<rfloor>")
  case True
  have "roundHalfEven a \<le> \<lfloor>a\<rfloor> + 1" using roundHalfEven_bounds by blast
  also have "\<dots> \<le> \<lfloor>b\<rfloor>" using True by simp
  also have "\<dots> \<le> roundHalfEven b" using roundHalfEven_bounds by blast
  finally show ?thesis .
next
  case False
  then have eq: "\<lfloor>a\<rfloor> = \<lfloor>b\<rfloor>" using floor_mono [OF assms] by simp
  show ?thesis using assms unfolding roundHalfEven_def Let_def eq by auto
qed

lemma rnd_0 [simp]: "rnd 0 = 0"
  by (simp add: rnd_def)

lemma rnd_minus: "rnd (- x) = - rnd x"
  by (simp add: rnd_def Let_def sgn_minus)

lemma rnd_pos:
  "0 < x \<Longrightarrow> rnd x = of_int (roundHalfEven (x / 2 powi (ilog2 x - 52))) * 2 powi (ilog2 x - 52)"
  by (simp add: rnd_def Let_def)

lemma ulp_pos: "0 < (2::rat) powi e"
  by simp

lemma pow_split: "(2::rat) powi e = 2 ^ 52 * 2 powi (e - 52)"
  using power_int_add [of "2::rat" 52 "e - 52"] by simp

lemma pow_split1: "(2::rat) powi (e + 1) = 2 ^ 53 * 2 powi (e - 52)"
  using power_int_add [of "2::rat" 53 "e - 52"] by (simp add: add.commute)

lemma mant_bounds:
  assumes "0 < x"
  shows "2 ^ 52 \<le> x / 2 powi (ilog2 x - 52) \<and> x / 2 powi (ilog2 x - 52) < 2 ^ 53"
proof -
  let ?u = "(2::rat) powi (ilog2 x - 52)"
  have u: "0 < ?u" by simp
  from ilog2_bounds [OF assms] have "2 ^ 52 * ?u \<le> x" "x < 2 ^ 53 * ?u"
    using pow_split [of "ilog2 x"] pow_split1 [of "ilog2 x"] by simp_all
  then show ?thesis using u by (simp add: pos_le_divide_eq pos_divide_less_eq)
qed

lemma rnd_pos_bounds:
  assumes "0 < x"
  shows "2 powi ilog2 x \<le> rnd x \<and> rnd x \<le> 2 powi (ilog2 x + 1)"
proof -
  let ?u = "(2::rat) powi (ilog2 x - 52)"
  let ?m = "x / ?u"
  have u: "0 < ?u" by simp
  from mant_bounds [OF assms] have m: "2 ^ 52 \<le> ?m" "?m < 2 ^ 53" by simp_all
  have "(2::int) ^ 52 \<le> \<lfloor>?m\<rfloor>" using m(1) by (simp add: le_floor_iff)
  then have lo: "(2::int) ^ 52 \<le> roundHalfEven ?m" using roundHalfEven_bounds [of ?m] by linarith
  have "\<lfloor>?m\<rfloor> < (2::int) ^ 53" using m(2) by (simp add: floor_less_iff)
  then have hi: "roundHalfEven ?m \<le> (2::int) ^ 53" using roundHalfEven_bounds [of ?m] by linarith
  have "(of_int ((2::int) ^ 52) :: rat) \<le> of_int (roundHalfEven ?m)"
    using lo by (simp only: of_int_le_iff)
  then have "2 ^ 52 * ?u \<le> of_int (roundHalfEven ?m) * ?u"
    using u by (simp add: mult_right_mono)
  then have L: "2 powi ilog2 x \<le> rnd x"
    using pow_split [of "ilog2 x"] rnd_pos [OF assms] by simp
  have "(of_int (roundHalfEven ?m) :: rat) \<le> of_int ((2::int) ^ 53)"
    using hi by (simp only: of_int_le_iff)
  then have "of_int (roundHalfEven ?m) * ?u \<le> 2 ^ 53 * ?u"
    using u by (simp add: mult_right_mono)
  then have U: "rnd x \<le> 2 powi (ilog2 x + 1)"
    using pow_split1 [of "ilog2 x"] rnd_pos [OF assms] by simp
  show ?thesis using L U by simp
qed

lemma rnd_pos_pos: "0 < x \<Longrightarrow> 0 < rnd x"
  using rnd_pos_bounds [of x] ulp_pos [of "ilog2 x"] by linarith

lemma rnd_mono_pos:
  assumes "0 < x" "x \<le> y"
  shows "rnd x \<le> rnd y"
proof -
  have y0: "0 < y" using assms by simp
  have le: "ilog2 x \<le> ilog2 y" by (rule ilog2_mono [OF assms])
  show ?thesis
  proof (cases "ilog2 x = ilog2 y")
    case True
    let ?u = "(2::rat) powi (ilog2 y - 52)"
    have "x / ?u \<le> y / ?u" using assms(2) by (simp add: divide_right_mono)
    then have "roundHalfEven (x / ?u) \<le> roundHalfEven (y / ?u)" by (rule roundHalfEven_mono)
    then have "(of_int (roundHalfEven (x / ?u)) :: rat) \<le> of_int (roundHalfEven (y / ?u))"
      by (simp only: of_int_le_iff)
    then have "of_int (roundHalfEven (x / ?u)) * ?u \<le> of_int (roundHalfEven (y / ?u)) * ?u"
      by (simp add: mult_right_mono)
    then show ?thesis using rnd_pos [OF assms(1)] rnd_pos [OF y0] True by simp
  next
    case False
    then have "ilog2 x + 1 \<le> ilog2 y" using le by simp
    then have "(2::rat) powi (ilog2 x + 1) \<le> 2 powi ilog2 y"
      by (intro power_int_increasing) simp_all
    then show ?thesis
      using rnd_pos_bounds [OF assms(1)] rnd_pos_bounds [OF y0] by linarith
  qed
qed

lemma rnd_mono:
  assumes "x \<le> y"
  shows "rnd x \<le> rnd y"
proof -
  consider "0 < x" | "x = 0" "0 < y" | "x = 0" "y = 0" | "x < 0" "0 \<le> y" | "x < 0" "y < 0"
    using assms by linarith
  then show ?thesis
  proof cases
    case 1
    then show ?thesis using assms by (rule rnd_mono_pos)
  next
    case 2
    then show ?thesis using rnd_pos_pos [of y] by simp
  next
    case 3
    then show ?thesis by simp
  next
    case 4
    have "0 < rnd (- x)" using 4 by (intro rnd_pos_pos) simp
    then have "rnd x < 0" by (simp add: rnd_minus)
    moreover have "0 \<le> rnd y" using 4 rnd_pos_pos [of y] by (cases "y = 0") auto
    ultimately show ?thesis by simp
  next
    case 5
    have "rnd (- y) \<le> rnd (- x)" using 5 assms by (intro rnd_mono_pos) simp_all
    then show ?thesis by (simp add: rnd_minus)
  qed
qed

lemma rnd_err_pos:
  assumes "0 < x"
  shows "\<bar>rnd x - x\<bar> \<le> x / 2 ^ 53"
proof -
  let ?u = "(2::rat) powi (ilog2 x - 52)"
  let ?m = "x / ?u"
  have u: "0 < ?u" by simp
  have x_eq: "x = ?m * ?u" by simp
  have "rnd x - x = (of_int (roundHalfEven ?m) - ?m) * ?u"
    using rnd_pos [OF assms] by (simp add: algebra_simps)
  then have "\<bar>rnd x - x\<bar> = \<bar>of_int (roundHalfEven ?m) - ?m\<bar> * ?u"
    using u by (simp add: abs_mult)
  also have "\<dots> \<le> (1 / 2) * ?u"
    using roundHalfEven_err [of ?m] u by (intro mult_right_mono) simp_all
  also have "\<dots> \<le> x / 2 ^ 53"
  proof -
    have "2 ^ 52 * ?u \<le> x" using ilog2_bounds [OF assms] pow_split [of "ilog2 x"] by simp
    then show ?thesis by simp
  qed
  finally show ?thesis .
qed

lemma rnd_err: "\<bar>rnd x - x\<bar> \<le> \<bar>x\<bar> / 2 ^ 53"
proof -
  consider "0 < x" | "x = 0" | "x < 0" by linarith
  then show ?thesis
  proof cases
    case 1
    then show ?thesis using rnd_err_pos [of x] by simp
  next
    case 2
    then show ?thesis by simp
  next
    case 3
    then have "\<bar>rnd (- x) - (- x)\<bar> \<le> (- x) / 2 ^ 53" by (intro rnd_err_pos) simp
    moreover have "\<bar>rnd (- x) - (- x)\<bar> = \<bar>rnd x - x\<bar>" by (simp add: rnd_minus)
    ultimately show ?thesis using 3 by simp
  qed
qed


section \<open>Evaluating the scorer on a concrete password\<close>

text \<open>
  For a concrete value the exponent is found among the eleven binades that the scorer's
  values fall in; the string tests are evaluated on their own, and the arithmetic after
  them.
\<close>

lemma ilog2_cases:
  "1 / 16 \<le> x \<Longrightarrow> x < 1 / 8 \<Longrightarrow> ilog2 x = - 4"
  "1 / 8 \<le> x \<Longrightarrow> x < 1 / 4 \<Longrightarrow> ilog2 x = - 3"
  "1 / 4 \<le> x \<Longrightarrow> x < 1 / 2 \<Longrightarrow> ilog2 x = - 2"
  "1 / 2 \<le> x \<Longrightarrow> x < 1 \<Longrightarrow> ilog2 x = - 1"
  "1 \<le> x \<Longrightarrow> x < 2 \<Longrightarrow> ilog2 x = 0"
  "2 \<le> x \<Longrightarrow> x < 4 \<Longrightarrow> ilog2 x = 1"
  "4 \<le> x \<Longrightarrow> x < 8 \<Longrightarrow> ilog2 x = 2"
  "8 \<le> x \<Longrightarrow> x < 16 \<Longrightarrow> ilog2 x = 3"
  "16 \<le> x \<Longrightarrow> x < 32 \<Longrightarrow> ilog2 x = 4"
  "32 \<le> x \<Longrightarrow> x < 64 \<Longrightarrow> ilog2 x = 5"
  "64 \<le> x \<Longrightarrow> x < 128 \<Longrightarrow> ilog2 x = 6"
  by (rule ilog2_unique; simp)+

lemma floor_rat_numeral:
  "\<lfloor>(numeral a :: rat) / numeral b\<rfloor> = numeral a div numeral b"
  using floor_divide_of_int_eq [of "numeral a" "numeral b", where ?'a = rat] by simp

lemmas fl_eval = rnd_def lit_def fl_add_def fl_sub_def fl_mul_def fl_div_def
  roundHalfEven_def Let_def ilog2_cases floor_rat_numeral

lemmas score_eval = validatePasswordStrength_def calculatePasswordStrength_def
  calculateComplexity_def complexityBeforeClamp_def lengthScore_def passwordStrengthConfig_def

lemma calculateComplexity_flags:
  "calculateComplexity p =
     complexityOf (hasCommonPattern p) (hasRepeats p) (hasSequential p)
       (test_class is_lower p \<and> test_class is_upper p)
       (test_class is_digit p \<and> test_class is_letter p) (length p)"
  unfolding calculateComplexity_def complexityBeforeClamp_def complexityOf_def Let_def ..

lemma flags_empty:
  "\<not> test_class is_lower []" "\<not> test_class is_upper []" "\<not> test_class is_digit []"
  "\<not> test_class is_letter []" "\<not> test_class is_special []"
  "\<not> hasCommonPattern []" "\<not> hasRepeats []" "\<not> hasSequential []"
  by code_simp+

lemma flags_twelve_a:
  "test_class is_lower (js ''aaaaaaaaaaaa'')" "\<not> test_class is_upper (js ''aaaaaaaaaaaa'')"
  "\<not> test_class is_digit (js ''aaaaaaaaaaaa'')" "test_class is_letter (js ''aaaaaaaaaaaa'')"
  "\<not> test_class is_special (js ''aaaaaaaaaaaa'')" "\<not> hasCommonPattern (js ''aaaaaaaaaaaa'')"
  "hasRepeats (js ''aaaaaaaaaaaa'')" "\<not> hasSequential (js ''aaaaaaaaaaaa'')"
  "length (js ''aaaaaaaaaaaa'') = 12"
  by code_simp+

lemma flags_passw0rd:
  "test_class is_lower (js ''Passw0rd!'')" "test_class is_upper (js ''Passw0rd!'')"
  "test_class is_digit (js ''Passw0rd!'')" "test_class is_letter (js ''Passw0rd!'')"
  "test_class is_special (js ''Passw0rd!'')" "\<not> hasCommonPattern (js ''Passw0rd!'')"
  "\<not> hasRepeats (js ''Passw0rd!'')" "\<not> hasSequential (js ''Passw0rd!'')"
  "length (js ''Passw0rd!'') = 9"
  by code_simp+

lemma flags_troubadour:
  "test_class is_lower (js ''Tr0ub4dour&3xyz'')" "test_class is_upper (js ''Tr0ub4dour&3xyz'')"
  "test_class is_digit (js ''Tr0ub4dour&3xyz'')" "test_class is_letter (js ''Tr0ub4dour&3xyz'')"
  "test_class is_special (js ''Tr0ub4dour&3xyz'')" "\<not> hasCommonPattern (js ''Tr0ub4dour&3xyz'')"
  "\<not> hasRepeats (js ''Tr0ub4dour&3xyz'')" "hasSequential (js ''Tr0ub4dour&3xyz'')"
  "length (js ''Tr0ub4dour&3xyz'') = 15"
  by code_simp+

lemma flags_twelve_spaces:
  "\<not> test_class is_lower (replicate 12 0x20)" "\<not> test_class is_upper (replicate 12 0x20)"
  "\<not> test_class is_digit (replicate 12 0x20)" "\<not> test_class is_letter (replicate 12 0x20)"
  "\<not> test_class is_special (replicate 12 0x20)" "\<not> hasCommonPattern (replicate 12 0x20)"
  "hasRepeats (replicate 12 0x20)" "\<not> hasSequential (replicate 12 0x20)"
  by code_simp+

section \<open>The example passwords\<close>

text \<open>
  Claim C5, as stated, lets the total of the empty string consist of the length term alone.
  The length term is 0 there, the total is not: the baseline complexity is weighted in.
\<close>

theorem empty_total_not_length_term:
  "lengthScore [] = 0 \<and> snd (validatePasswordStrength []) \<noteq> lengthScore []"
  unfolding score_eval Let_def by (simp add: flags_empty fl_eval)

text \<open>
  Claim C5, amended. For the empty string all six entries of the result map are false, none
  of the three penalties triggers, the complexity sub-score is the literal 0.7, and the
  length term is 0; the total is 14, the baseline complexity 0.7 times its weight 20.
\<close>

theorem empty_string_score:
  "(\<forall>r. fst (validatePasswordStrength []) r = Some False)
   \<and> \<not> hasCommonPattern [] \<and> \<not> hasRepeats [] \<and> \<not> hasSequential []
   \<and> calculateComplexity [] = lit (7 / 10)
   \<and> lengthScore [] = 0
   \<and> snd (validatePasswordStrength []) = 14"
proof -
  have "fst (validatePasswordStrength []) r = Some False" for r
    unfolding score_eval Let_def by (cases r) (simp_all add: flags_empty fl_eval)
  moreover have "calculateComplexity [] = lit (7 / 10)"
    unfolding score_eval Let_def by (simp add: flags_empty fl_eval)
  moreover have "lengthScore [] = 0"
    unfolding score_eval Let_def by (simp add: fl_eval)
  moreover have "snd (validatePasswordStrength []) = 14"
    unfolding score_eval Let_def by (simp add: flags_empty fl_eval)
  ultimately show ?thesis using flags_empty by blast
qed

text \<open>
  Claim C6, as stated, has every entry but \<open>length\<close> and \<open>lowercase\<close> false for twelve
  letters \<open>a\<close>. The \<open>complexity\<close> entry is not false.
\<close>

theorem twelve_a_complexity_flag:
  "fst (validatePasswordStrength (js ''aaaaaaaaaaaa'')) Complexity \<noteq> Some False"
  unfolding score_eval Let_def by (simp add: flags_twelve_a fl_eval)

text \<open>
  Claim C6, amended. For twelve letters \<open>a\<close> the entries \<open>length\<close>, \<open>lowercase\<close> and
  \<open>complexity\<close> are true and \<open>uppercase\<close>, \<open>number\<close>, \<open>special\<close> are false; the repeat
  test matches, the length reaches 12, the complexity sub-score is computed with the
  repeat penalty and the first length bonus alone, and it lies strictly between 0 and 1.
\<close>

theorem twelve_a_score:
  "fst (validatePasswordStrength (js ''aaaaaaaaaaaa'')) Length = Some True
   \<and> fst (validatePasswordStrength (js ''aaaaaaaaaaaa'')) Lowercase = Some True
   \<and> fst (validatePasswordStrength (js ''aaaaaaaaaaaa'')) Uppercase = Some False
   \<and> fst (validatePasswordStrength (js ''aaaaaaaaaaaa'')) Number = Some False
   \<and> fst (validatePasswordStrength (js ''aaaaaaaaaaaa'')) Special = Some False
   \<and> fst (validatePasswordStrength (js ''aaaaaaaaaaaa'')) Complexity = Some True
   \<and> hasRepeats (js ''aaaaaaaaaaaa'') \<and> 12 \<le> length (js ''aaaaaaaaaaaa'')
   \<and> calculateComplexity (js ''aaaaaaaaaaaa'') = complexityOf False True False False False 12
   \<and> 0 < calculateComplexity (js ''aaaaaaaaaaaa'')
   \<and> calculateComplexity (js ''aaaaaaaaaaaa'') < 1"
proof -
  have "calculateComplexity (js ''aaaaaaaaaaaa'') = complexityOf False True False False False 12"
    by (simp add: calculateComplexity_flags flags_twelve_a)
  moreover have "fst (validatePasswordStrength (js ''aaaaaaaaaaaa'')) Length = Some True
   \<and> fst (validatePasswordStrength (js ''aaaaaaaaaaaa'')) Lowercase = Some True
   \<and> fst (validatePasswordStrength (js ''aaaaaaaaaaaa'')) Uppercase = Some False
   \<and> fst (validatePasswordStrength (js ''aaaaaaaaaaaa'')) Number = Some False
   \<and> fst (validatePasswordStrength (js ''aaaaaaaaaaaa'')) Special = Some False
   \<and> fst (validatePasswordStrength (js ''aaaaaaaaaaaa'')) Complexity = Some True
   \<and> 0 < calculateComplexity (js ''aaaaaaaaaaaa'')
   \<and> calculateComplexity (js ''aaaaaaaaaaaa'') < 1"
    unfolding score_eval Let_def by (simp add: flags_twelve_a fl_eval)
  ultimately show ?thesis using flags_twelve_a by simp
qed

text \<open>
  Claim C7. For \<open>Passw0rd!\<close> the entries \<open>length\<close>, \<open>lowercase\<close>, \<open>uppercase\<close>,
  \<open>number\<close> and \<open>special\<close> are true, and the denylist penalty does not apply: the
  lowercased password is \<open>passw0rd!\<close>, in which the literal \<open>password\<close> does not occur,
  and the complexity sub-score is computed with the two bonuses and no penalty.
\<close>

theorem passw0rd_score:
  "fst (validatePasswordStrength (js ''Passw0rd!'')) Length = Some True
   \<and> fst (validatePasswordStrength (js ''Passw0rd!'')) Lowercase = Some True
   \<and> fst (validatePasswordStrength (js ''Passw0rd!'')) Uppercase = Some True
   \<and> fst (validatePasswordStrength (js ''Passw0rd!'')) Number = Some True
   \<and> fst (validatePasswordStrength (js ''Passw0rd!'')) Special = Some True
   \<and> toLowerCase (js ''Passw0rd!'') = js ''passw0rd!''
   \<and> \<not> test_literal (js ''password'') (js ''passw0rd!'')
   \<and> \<not> hasCommonPattern (js ''Passw0rd!'')
   \<and> calculateComplexity (js ''Passw0rd!'') = complexityOf False False False True True 9"
proof -
  have c: "calculateComplexity (js ''Passw0rd!'') = complexityOf False False False True True 9"
    by (simp add: calculateComplexity_flags flags_passw0rd)
  have "toLowerCase (js ''Passw0rd!'') = js ''passw0rd!''
        \<and> \<not> test_literal (js ''password'') (js ''passw0rd!'')"
    by code_simp
  moreover have "fst (validatePasswordStrength (js ''Passw0rd!'')) Length = Some True
   \<and> fst (validatePasswordStrength (js ''Passw0rd!'')) Lowercase = Some True
   \<and> fst (validatePasswordStrength (js ''Passw0rd!'')) Uppercase = Some True
   \<and> fst (validatePasswordStrength (js ''Passw0rd!'')) Number = Some True
   \<and> fst (validatePasswordStrength (js ''Passw0rd!'')) Special = Some True"
    unfolding validatePasswordStrength_def Let_def by (simp add: flags_passw0rd)
  ultimately show ?thesis using flags_passw0rd(6) c by blast
qed

text \<open>
  Claim C8. For \<open>Tr0ub4dour&3xyz\<close> the sequential test matches (on the run \<open>xyz\<close>) and
  the length, 15, reaches 12 and not 16. Before the baseline and the clamp the
  adjustments are the sequential penalty, the two bonuses and the first length bonus,
  \<open>(((0 - 0.2) + 0.2) + 0.2) + 0.3\<close>, which is 0.5: the sum without the penalty would be
  0.7 and the sum without the length bonus 0.2. The sub-score of any password is this sum
  plus the baseline, clamped; here it is 0.5 + 0.7 clamped to 1, and the total is 100, so
  at least 70.
\<close>

theorem troubadour_score:
  "hasSequential (js ''Tr0ub4dour&3xyz'')
   \<and> test_literal_i (js ''xyz'') (js ''Tr0ub4dour&3xyz'')
   \<and> 12 \<le> length (js ''Tr0ub4dour&3xyz'')
   \<and> complexityBeforeClamp (js ''Tr0ub4dour&3xyz'')
       = fl_add (fl_add (fl_add (fl_sub 0 (lit (2 / 10))) (lit (2 / 10))) (lit (2 / 10)))
           (lit (3 / 10))
   \<and> complexityBeforeClamp (js ''Tr0ub4dour&3xyz'') = 1 / 2
   \<and> complexityBeforeClamp (js ''Tr0ub4dour&3xyz'')
       \<noteq> fl_add (fl_add (fl_add 0 (lit (2 / 10))) (lit (2 / 10))) (lit (3 / 10))
   \<and> complexityBeforeClamp (js ''Tr0ub4dour&3xyz'')
       \<noteq> fl_add (fl_add (fl_sub 0 (lit (2 / 10))) (lit (2 / 10))) (lit (2 / 10))
   \<and> (\<forall>p. calculateComplexity p
         = max 0 (min 1 (fl_add (complexityBeforeClamp p) (lit (7 / 10)))))
   \<and> calculateComplexity (js ''Tr0ub4dour&3xyz'') = 1
   \<and> snd (validatePasswordStrength (js ''Tr0ub4dour&3xyz'')) = 100
   \<and> 70 \<le> snd (validatePasswordStrength (js ''Tr0ub4dour&3xyz''))"
proof -
  have a: "complexityBeforeClamp (js ''Tr0ub4dour&3xyz'') = 1 / 2"
    unfolding complexityBeforeClamp_def Let_def by (simp add: flags_troubadour fl_eval)
  have e: "fl_add (fl_add (fl_add (fl_sub 0 (lit (2 / 10))) (lit (2 / 10))) (lit (2 / 10)))
      (lit (3 / 10)) = 1 / 2"
    by (simp add: fl_eval)
  have n1: "fl_add (fl_add (fl_add 0 (lit (2 / 10))) (lit (2 / 10))) (lit (3 / 10)) \<noteq> 1 / 2"
    by (simp add: fl_eval)
  have n2: "fl_add (fl_add (fl_sub 0 (lit (2 / 10))) (lit (2 / 10))) (lit (2 / 10)) \<noteq> 1 / 2"
    by (simp add: fl_eval)
  have c: "calculateComplexity (js ''Tr0ub4dour&3xyz'') = 1"
    unfolding calculateComplexity_def a by (simp add: fl_eval)
  have x: "test_literal_i (js ''xyz'') (js ''Tr0ub4dour&3xyz'')" by code_simp
  have t: "snd (validatePasswordStrength (js ''Tr0ub4dour&3xyz'')) = 100"
    unfolding score_eval Let_def by (simp add: flags_troubadour fl_eval)
  have l: "12 \<le> length (js ''Tr0ub4dour&3xyz'')" by (simp add: flags_troubadour)
  have d: "\<forall>p. calculateComplexity p
      = max 0 (min 1 (fl_add (complexityBeforeClamp p) (lit (7 / 10))))"
    by (simp add: calculateComplexity_def)
  show ?thesis
    unfolding e using flags_troubadour(8) x l a n1 n2 d c t by simp
qed

text \<open>
  Claim C10, as stated, gives twelve spaces the complexity sub-score 0.8. The value is
  neither the double written \<open>0.8\<close> nor the rational 4/5.
\<close>

theorem twelve_spaces_complexity_not_08:
  "calculateComplexity (replicate 12 0x20) \<noteq> lit (8 / 10)
   \<and> calculateComplexity (replicate 12 0x20) \<noteq> 8 / 10"
  unfolding score_eval Let_def by (simp add: flags_twelve_spaces fl_eval)

text \<open>
  Claim C10, amended. For twelve spaces the entries \<open>length\<close> and \<open>complexity\<close> are true
  and the other four false; the complexity sub-score is the double sum
  \<open>((0 - 0.2) + 0.3) + 0.7\<close>, which is one unit in the last place below the double \<open>0.8\<close>
  (it prints as 0.7999999999999999); the total is exactly 36.
\<close>

theorem twelve_spaces_score:
  "fst (validatePasswordStrength (replicate 12 0x20)) Length = Some True
   \<and> fst (validatePasswordStrength (replicate 12 0x20)) Complexity = Some True
   \<and> fst (validatePasswordStrength (replicate 12 0x20)) Lowercase = Some False
   \<and> fst (validatePasswordStrength (replicate 12 0x20)) Uppercase = Some False
   \<and> fst (validatePasswordStrength (replicate 12 0x20)) Number = Some False
   \<and> fst (validatePasswordStrength (replicate 12 0x20)) Special = Some False
   \<and> calculateComplexity (replicate 12 0x20)
       = fl_add (fl_add (fl_sub 0 (lit (2 / 10))) (lit (3 / 10))) (lit (7 / 10))
   \<and> calculateComplexity (replicate 12 0x20) = lit (8 / 10) - 1 / 2 ^ 53
   \<and> calculateComplexity (replicate 12 0x20) = 7205759403792793 / 9007199254740992
   \<and> snd (validatePasswordStrength (replicate 12 0x20)) = 36"
  unfolding score_eval Let_def by (simp add: flags_twelve_spaces fl_eval)


section \<open>The range of the total and the two scorers\<close>

lemma total_unfold:
  "snd (validatePasswordStrength p) =
     fl_add (classTerms p (fl_add 0 (lengthScore p))) (fl_mul (calculateComplexity p) 20)"
  by (simp add: validatePasswordStrength_def Let_def passwordStrengthConfig_def
      classTerms_def addIf_def)

lemma strength_unfold:
  "calculatePasswordStrength p =
     fl_add (classTerms p (addIf (8 \<le> length p) 20 0)) (fl_mul (calculateComplexity p) 20)"
  by (simp add: calculatePasswordStrength_def Let_def passwordStrengthConfig_def
      classTerms_def addIf_def)

lemma rnd_consts:
  "rnd 1 = 1" "rnd 20 = 20" "rnd 35 = 35" "rnd 50 = 50" "rnd 65 = 65" "rnd 80 = 80"
  "rnd 100 = 100"
  by (simp_all add: fl_eval)

lemma rnd_nonneg: "0 \<le> x \<Longrightarrow> 0 \<le> rnd x"
  using rnd_mono [of 0 x] by simp

lemma addIf_mono: "t \<le> t' \<Longrightarrow> addIf b w t \<le> addIf b w t'"
  by (simp add: addIf_def fl_add_def rnd_mono)

lemma addIf_range:
  assumes "0 \<le> t" "t \<le> B" "rnd (B + 15) = B + 15"
  shows "0 \<le> addIf b 15 t \<and> addIf b 15 t \<le> B + 15"
proof (cases b)
  case True
  have "rnd (t + 15) \<le> rnd (B + 15)" using assms(2) by (intro rnd_mono) simp
  moreover have "0 \<le> rnd (t + 15)" using assms(1) by (intro rnd_nonneg) simp
  ultimately show ?thesis using True assms(3) by (simp add: addIf_def fl_add_def)
next
  case False
  then show ?thesis using assms by (simp add: addIf_def)
qed

lemma classTerms_mono: "t \<le> t' \<Longrightarrow> classTerms p t \<le> classTerms p t'"
  unfolding classTerms_def by (intro addIf_mono)

lemma classTerms_range:
  assumes "0 \<le> t" "t \<le> 20"
  shows "0 \<le> classTerms p t \<and> classTerms p t \<le> 80"
proof -
  have 1: "0 \<le> addIf (test_class is_lower p) 15 t \<and> addIf (test_class is_lower p) 15 t \<le> 20 + 15"
    using assms by (intro addIf_range) (simp_all add: rnd_consts)
  let ?t1 = "addIf (test_class is_lower p) 15 t"
  have 2: "0 \<le> addIf (test_class is_upper p) 15 ?t1 \<and> addIf (test_class is_upper p) 15 ?t1 \<le> 35 + 15"
    using 1 by (intro addIf_range) (simp_all add: rnd_consts)
  let ?t2 = "addIf (test_class is_upper p) 15 ?t1"
  have 3: "0 \<le> addIf (test_class is_digit p) 15 ?t2 \<and> addIf (test_class is_digit p) 15 ?t2 \<le> 50 + 15"
    using 2 by (intro addIf_range) (simp_all add: rnd_consts)
  let ?t3 = "addIf (test_class is_digit p) 15 ?t2"
  have 4: "0 \<le> addIf (test_class is_special p) 15 ?t3 \<and> addIf (test_class is_special p) 15 ?t3 \<le> 65 + 15"
    using 3 by (intro addIf_range) (simp_all add: rnd_consts)
  then show ?thesis by (simp add: classTerms_def)
qed

lemma lengthScore_range: "0 \<le> lengthScore p \<and> lengthScore p \<le> 20"
proof -
  have "0 \<le> rnd (of_nat (length p) / 12)" by (intro rnd_nonneg) simp
  then have "0 \<le> rnd (rnd (of_nat (length p) / 12) * 20)" by (intro rnd_nonneg) simp
  then show ?thesis
    by (simp add: lengthScore_def passwordStrengthConfig_def fl_mul_def fl_div_def)
qed

lemma lengthScore_full:
  assumes "12 \<le> length p"
  shows "lengthScore p = 20"
proof -
  have "(1::rat) \<le> of_nat (length p) / 12" using assms by simp
  then have "rnd 1 \<le> rnd (of_nat (length p) / 12)" by (rule rnd_mono)
  then have "20 \<le> rnd (of_nat (length p) / 12) * 20" by (simp add: rnd_consts)
  then have "rnd 20 \<le> rnd (rnd (of_nat (length p) / 12) * 20)" by (rule rnd_mono)
  then show ?thesis
    by (simp add: lengthScore_def passwordStrengthConfig_def fl_mul_def fl_div_def rnd_consts)
qed

lemma lengthScore_mono:
  assumes "length p \<le> length q"
  shows "lengthScore p \<le> lengthScore q"
proof -
  have "(of_nat (length p) :: rat) / 12 \<le> of_nat (length q) / 12" using assms by simp
  then have "rnd (of_nat (length p) / 12) \<le> rnd (of_nat (length q) / 12)" by (rule rnd_mono)
  then have "rnd (rnd (of_nat (length p) / 12) * 20) \<le> rnd (rnd (of_nat (length q) / 12) * 20)"
    by (intro rnd_mono) simp
  then show ?thesis
    by (simp add: lengthScore_def passwordStrengthConfig_def fl_mul_def fl_div_def)
qed

lemma calculateComplexity_range: "0 \<le> calculateComplexity p \<and> calculateComplexity p \<le> 1"
  by (simp add: calculateComplexity_def)

text \<open>
  Claim C1. For every string the total handed to the display lies between 0 and 100.
\<close>

theorem total_in_range:
  "0 \<le> snd (validatePasswordStrength p) \<and> snd (validatePasswordStrength p) \<le> 100"
proof -
  let ?t0 = "fl_add 0 (lengthScore p)"
  let ?m = "fl_mul (calculateComplexity p) 20"
  have ls: "0 \<le> lengthScore p" "lengthScore p \<le> 20" using lengthScore_range by simp_all
  have "rnd 0 \<le> rnd (lengthScore p)" "rnd (lengthScore p) \<le> rnd 20"
    using ls by (simp_all add: rnd_mono del: rnd_0)
  then have t0: "0 \<le> ?t0" "?t0 \<le> 20" by (simp_all add: fl_add_def rnd_consts)
  have ct: "0 \<le> classTerms p ?t0" "classTerms p ?t0 \<le> 80"
    using classTerms_range [OF t0] by simp_all
  have c: "0 \<le> calculateComplexity p" "calculateComplexity p \<le> 1"
    using calculateComplexity_range by simp_all
  have "rnd 0 \<le> rnd (calculateComplexity p * 20)" "rnd (calculateComplexity p * 20) \<le> rnd 20"
    using c by (simp_all add: rnd_mono del: rnd_0)
  then have m: "0 \<le> ?m" "?m \<le> 20" by (simp_all add: fl_mul_def rnd_consts)
  have "rnd 0 \<le> rnd (classTerms p ?t0 + ?m)" "rnd (classTerms p ?t0 + ?m) \<le> rnd 100"
    using ct m by (simp_all add: rnd_mono del: rnd_0)
  then show ?thesis by (simp add: total_unfold fl_add_def rnd_consts)
qed

lemma flags_eight_a:
  "test_class is_lower (js ''aaaaaaaa'')" "\<not> test_class is_upper (js ''aaaaaaaa'')"
  "\<not> test_class is_digit (js ''aaaaaaaa'')" "test_class is_letter (js ''aaaaaaaa'')"
  "\<not> test_class is_special (js ''aaaaaaaa'')" "\<not> hasCommonPattern (js ''aaaaaaaa'')"
  "hasRepeats (js ''aaaaaaaa'')" "\<not> hasSequential (js ''aaaaaaaa'')"
  "length (js ''aaaaaaaa'') = 8"
  by code_simp+

text \<open>
  Claim C2, as stated, has the login handler's \<open>calculatePasswordStrength\<close> return the
  total of \<open>validatePasswordStrength\<close>. For eight letters \<open>a\<close> the two differ.
\<close>

theorem login_scorer_differs:
  "calculatePasswordStrength (js ''aaaaaaaa'') \<noteq> snd (validatePasswordStrength (js ''aaaaaaaa''))"
  unfolding score_eval Let_def by (simp add: flags_eight_a fl_eval)

text \<open>
  Claim C2, amended. The login scorer has the class and complexity terms of the display
  scorer and a step in place of the length ramp: the whole length weight from 8 code
  units on, nothing below (the first two equations). The two totals are equal for the empty password and for every
  password of at least 12 code units; from 8 code units on the login total is at least the
  display total, below 8 it is at most the display total.
\<close>

theorem login_scorer_relation:
  "calculatePasswordStrength p =
     fl_add (classTerms p (if 8 \<le> length p then fl_add 0 20 else 0))
       (fl_mul (calculateComplexity p) 20)
   \<and> snd (validatePasswordStrength p) =
     fl_add (classTerms p (fl_add 0 (lengthScore p))) (fl_mul (calculateComplexity p) 20)
   \<and> (length p = 0 \<or> 12 \<le> length p
      \<longrightarrow> calculatePasswordStrength p = snd (validatePasswordStrength p))
   \<and> (8 \<le> length p \<longrightarrow> snd (validatePasswordStrength p) \<le> calculatePasswordStrength p)
   \<and> (length p < 8 \<longrightarrow> calculatePasswordStrength p \<le> snd (validatePasswordStrength p))"
proof -
  let ?m = "fl_mul (calculateComplexity p) 20"
  have ls: "0 \<le> lengthScore p" "lengthScore p \<le> 20" using lengthScore_range by simp_all
  have eq0: "length p = 0 \<Longrightarrow> addIf (8 \<le> length p) 20 0 = fl_add 0 (lengthScore p)"
    by (simp add: addIf_def fl_add_def lengthScore_def fl_div_def fl_mul_def
        passwordStrengthConfig_def)
  have eq12: "12 \<le> length p \<Longrightarrow> addIf (8 \<le> length p) 20 0 = fl_add 0 (lengthScore p)"
    by (simp add: addIf_def lengthScore_full)
  have ge: "8 \<le> length p \<Longrightarrow> fl_add 0 (lengthScore p) \<le> addIf (8 \<le> length p) 20 0"
    using ls by (simp add: addIf_def fl_add_def rnd_mono)
  have le: "length p < 8 \<Longrightarrow> addIf (8 \<le> length p) 20 0 \<le> fl_add 0 (lengthScore p)"
    using ls by (simp add: addIf_def fl_add_def rnd_nonneg)
  have mono: "t \<le> t' \<Longrightarrow> fl_add (classTerms p t) ?m \<le> fl_add (classTerms p t') ?m" for t t'
    unfolding fl_add_def by (intro rnd_mono add_right_mono classTerms_mono)
  have "(length p = 0 \<or> 12 \<le> length p
      \<longrightarrow> calculatePasswordStrength p = snd (validatePasswordStrength p))
   \<and> (8 \<le> length p \<longrightarrow> snd (validatePasswordStrength p) \<le> calculatePasswordStrength p)
   \<and> (length p < 8 \<longrightarrow> calculatePasswordStrength p \<le> snd (validatePasswordStrength p))"
    unfolding total_unfold strength_unfold
    using eq0 eq12 mono [OF ge] mono [OF le] by auto
  moreover have "calculatePasswordStrength p =
     fl_add (classTerms p (if 8 \<le> length p then fl_add 0 20 else 0))
       (fl_mul (calculateComplexity p) 20)"
    by (simp add: strength_unfold addIf_def)
  ultimately show ?thesis using total_unfold [of p] by blast
qed


text \<open>
  The three cases of the amended claim C2 at a password of 15, of 8 and of 3 code units.
\<close>

theorem login_scorer_relation_witness:
  "calculatePasswordStrength (js ''Tr0ub4dour&3xyz'')
     = snd (validatePasswordStrength (js ''Tr0ub4dour&3xyz''))
   \<and> snd (validatePasswordStrength (js ''aaaaaaaa'')) \<le> calculatePasswordStrength (js ''aaaaaaaa'')
   \<and> calculatePasswordStrength (js ''aaA'') \<le> snd (validatePasswordStrength (js ''aaA''))"
proof -
  have l: "length (js ''aaA'') = 3" by (simp add: js_def)
  show ?thesis
    using login_scorer_relation [of "js ''Tr0ub4dour&3xyz''"]
      login_scorer_relation [of "js ''aaaaaaaa''"] login_scorer_relation [of "js ''aaA''"]
    by (simp add: flags_troubadour flags_eight_a l)
qed


section \<open>The repeat test\<close>

lemma test_repeat_iff:
  "test_repeat s \<longleftrightarrow>
     (\<exists>i < length s - 2. \<not> lineTerminator (s ! i) \<and> s ! (i + 1) = s ! i \<and> s ! (i + 2) = s ! i)"
proof (induction s rule: test_repeat.induct)
  case (1 a b c s)
  let ?Q = "\<lambda>t i. \<not> lineTerminator (t ! i) \<and> t ! (i + 1) = t ! i \<and> t ! (i + 2) = t ! i"
  have "(\<exists>i < length (a # b # c # s) - 2. ?Q (a # b # c # s) i)
        \<longleftrightarrow> ?Q (a # b # c # s) 0 \<or> (\<exists>j < length (b # c # s) - 2. ?Q (a # b # c # s) (Suc j))"
  proof
    assume "\<exists>i < length (a # b # c # s) - 2. ?Q (a # b # c # s) i"
    then obtain i where i: "i < length (a # b # c # s) - 2" "?Q (a # b # c # s) i" by blast
    show "?Q (a # b # c # s) 0 \<or> (\<exists>j < length (b # c # s) - 2. ?Q (a # b # c # s) (Suc j))"
    proof (cases i)
      case 0
      then show ?thesis using i by simp
    next
      case (Suc j)
      then have "j < length (b # c # s) - 2" using i(1) by simp
      then show ?thesis using i(2) Suc by blast
    qed
  next
    assume "?Q (a # b # c # s) 0 \<or> (\<exists>j < length (b # c # s) - 2. ?Q (a # b # c # s) (Suc j))"
    then show "\<exists>i < length (a # b # c # s) - 2. ?Q (a # b # c # s) i"
    proof
      assume "?Q (a # b # c # s) 0"
      then show ?thesis by (intro exI [of _ 0]) simp
    next
      assume "\<exists>j < length (b # c # s) - 2. ?Q (a # b # c # s) (Suc j)"
      then obtain j where "j < length (b # c # s) - 2" "?Q (a # b # c # s) (Suc j)" by blast
      then show ?thesis by (intro exI [of _ "Suc j"]) simp
    qed
  qed
  then show ?case using 1 by simp
qed simp_all

lemma hasRepeats_imp_tripleRun: "hasRepeats p \<Longrightarrow> tripleRun p"
  unfolding hasRepeats_def test_repeat_iff tripleRun_def by blast

text \<open>
  Claim C9. When no code unit occurs three times in a row, identical in case, the repeat
  test does not match and the complexity sub-score is computed with the repeat step
  skipped.
\<close>

theorem repeat_penalty_case_sensitive:
  assumes "\<not> tripleRun p"
  shows "\<not> hasRepeats p
    \<and> calculateComplexity p =
        complexityOf (hasCommonPattern p) False (hasSequential p)
          (test_class is_lower p \<and> test_class is_upper p)
          (test_class is_digit p \<and> test_class is_letter p) (length p)"
proof -
  have "\<not> hasRepeats p" using assms hasRepeats_imp_tripleRun by blast
  then show ?thesis by (simp add: calculateComplexity_flags)
qed

text \<open>The mixed-case run \<open>aaA\<close> is such a string.\<close>

theorem repeat_penalty_case_sensitive_witness:
  "\<not> tripleRun (js ''aaA'') \<and> \<not> hasRepeats (js ''aaA'')
   \<and> calculateComplexity (js ''aaA'') =
        complexityOf (hasCommonPattern (js ''aaA'')) False (hasSequential (js ''aaA''))
          (test_class is_lower (js ''aaA'') \<and> test_class is_upper (js ''aaA''))
          (test_class is_digit (js ''aaA'') \<and> test_class is_letter (js ''aaA''))
          (length (js ''aaA''))"
proof -
  have h: "\<not> tripleRun (js ''aaA'')" by code_simp
  show ?thesis using h repeat_penalty_case_sensitive [OF h] by simp
qed


section \<open>The regular expressions, by position\<close>

lemma matchesAt_iff: "matchesAt w s \<longleftrightarrow> take (length w) s = w"
  by (induction w s rule: matchesAt.induct) auto

lemma test_literal_iff: "test_literal w s \<longleftrightarrow> containsSubstring w s"
proof (induction s)
  case Nil
  then show ?case by (simp add: containsSubstring_def matchesAt_iff)
next
  case (Cons x xs)
  have "containsSubstring w (x # xs)
        \<longleftrightarrow> take (length w) (x # xs) = w \<or> containsSubstring w xs"
  proof
    assume "containsSubstring w (x # xs)"
    then obtain i where i: "i \<le> length (x # xs)" "take (length w) (drop i (x # xs)) = w"
      unfolding containsSubstring_def by blast
    show "take (length w) (x # xs) = w \<or> containsSubstring w xs"
    proof (cases i)
      case 0
      then show ?thesis using i by simp
    next
      case (Suc j)
      then have "j \<le> length xs" "take (length w) (drop j xs) = w" using i by simp_all
      then show ?thesis unfolding containsSubstring_def by blast
    qed
  next
    assume "take (length w) (x # xs) = w \<or> containsSubstring w xs"
    then show "containsSubstring w (x # xs)"
    proof
      assume "take (length w) (x # xs) = w"
      then show ?thesis unfolding containsSubstring_def by (intro exI [of _ 0]) simp
    next
      assume "containsSubstring w xs"
      then obtain j where "j \<le> length xs" "take (length w) (drop j xs) = w"
        unfolding containsSubstring_def by blast
      then show ?thesis unfolding containsSubstring_def by (intro exI [of _ "Suc j"]) simp
    qed
  qed
  then show ?case using Cons by (simp add: matchesAt_iff)
qed

lemma take3_drop_iff:
  "take 3 (drop i s) = [A, B, C]
     \<longleftrightarrow> i < length s - 2 \<and> s ! i = A \<and> s ! (i + 1) = B \<and> s ! (i + 2) = C"
proof
  assume h: "take 3 (drop i s) = [A, B, C]"
  then have "length (take 3 (drop i s)) = 3" by simp
  then have l: "i + 3 \<le> length s" by simp
  have "take 3 (drop i s) ! 0 = A" "take 3 (drop i s) ! 1 = B" "take 3 (drop i s) ! 2 = C"
    using h by simp_all
  then show "i < length s - 2 \<and> s ! i = A \<and> s ! (i + 1) = B \<and> s ! (i + 2) = C"
    using l by simp
next
  assume h: "i < length s - 2 \<and> s ! i = A \<and> s ! (i + 1) = B \<and> s ! (i + 2) = C"
  then have l: "length (take 3 (drop i s)) = 3" by auto
  show "take 3 (drop i s) = [A, B, C]"
  proof (rule nth_equalityI)
    show "length (take 3 (drop i s)) = length [A, B, C]" using l by simp
  next
    fix k assume "k < length (take 3 (drop i s))"
    then have "k = 0 \<or> k = 1 \<or> k = 2" using l by auto
    then show "take 3 (drop i s) ! k = [A, B, C] ! k" using h by auto
  qed
qed

lemma upper_not_lower: "is_upper x \<Longrightarrow> \<not> is_lower x"
  unfolding is_upper_def is_lower_def by (simp add: word_le_nat_alt)

lemma digit_not_letter: "is_digit x \<Longrightarrow> \<not> is_lower x \<and> \<not> is_upper x"
  unfolding is_upper_def is_lower_def is_digit_def by (simp add: word_le_nat_alt)

lemma upper_shift: "is_upper x \<Longrightarrow> is_lower (x + 0x20) \<and> x + 0x20 - 0x20 = x"
  unfolding is_upper_def is_lower_def
  by (simp add: word_le_nat_alt unat_word_ariths)

lemma lower_shift: "is_lower x \<Longrightarrow> is_upper (x - 0x20) \<and> x - 0x20 + 0x20 = x"
  unfolding is_upper_def is_lower_def
  by (simp add: word_le_nat_alt unat_sub) arith

lemma canonical_table:
  "map (map canonicalize) sequentialPatterns =
     map (\<lambda>k. [of_nat k, of_nat k + 1, of_nat k + 2]) ([65..<89] @ [48..<56])"
  by code_simp

lemma table_iff_upperAscending:
  "[A, B, C] \<in> set (map (map canonicalize) sequentialPatterns) \<longleftrightarrow> upperAscending A B C"
proof
  assume "[A, B, C] \<in> set (map (map canonicalize) sequentialPatterns)"
  then have "[A, B, C] \<in> (\<lambda>k. [of_nat k, of_nat k + 1, of_nat k + 2]) ` set ([65..<89] @ [48..<56])"
    by (simp only: canonical_table set_map)
  then obtain k :: nat where kin: "k \<in> set ([65..<89] @ [48..<56])"
    and eq: "[A, B, C] = [of_nat k, of_nat k + 1, of_nat k + 2]"
    by (rule imageE)
  have k: "(65 \<le> k \<and> k < 89) \<or> (48 \<le> k \<and> k < 56)"
    using kin by (simp only: set_append set_upt Un_iff atLeastLessThan_iff)
  have A: "A = of_nat k" and B: "B = A + 1" and C: "C = A + 2" using eq by simp_all
  have "k < 65536" using k by linarith
  then have u: "unat A = k" unfolding A by (simp add: unat_of_nat)
  have "k + 2 < 65536" using k by linarith
  then have u2: "unat (A + 2) = k + 2" using u by (simp add: unat_word_ariths)
  have "(is_upper A \<and> is_upper (A + 2)) \<or> (is_digit A \<and> is_digit (A + 2))"
    using k unfolding is_upper_def is_digit_def
    by (simp add: word_le_nat_alt u u2) linarith
  then show "upperAscending A B C" using B C by (simp add: upperAscending_def)
next
  assume h: "upperAscending A B C"
  then have B: "B = A + 1" and C: "C = A + 2" by (simp_all add: upperAscending_def)
  have ud: "(is_upper A \<and> is_upper (A + 2)) \<or> (is_digit A \<and> is_digit (A + 2))"
    using h by (auto simp: upperAscending_def)
  from ud have "unat A \<le> 90" unfolding is_upper_def is_digit_def
    by (auto simp: word_le_nat_alt)
  then have "unat A + 2 < 65536" by linarith
  then have u2: "unat (A + 2) = unat A + 2" by (simp add: unat_word_ariths)
  have k: "(65 \<le> unat A \<and> unat A < 89) \<or> (48 \<le> unat A \<and> unat A < 56)"
    using ud unfolding is_upper_def is_digit_def
    by (simp add: word_le_nat_alt u2) linarith
  then have "unat A \<in> set ([65..<89] @ [48..<56])" by (simp only: set_append set_upt) auto
  moreover have "[A, B, C] = (\<lambda>k. [of_nat k, of_nat k + 1, of_nat k + 2]) (unat A)"
    by (simp add: B C)
  ultimately have "[A, B, C] \<in> (\<lambda>k. [of_nat k, of_nat k + 1, of_nat k + 2]) ` set ([65..<89] @ [48..<56])"
    by (simp only: image_eqI)
  then show "[A, B, C] \<in> set (map (map canonicalize) sequentialPatterns)"
    unfolding canonical_table by (simp only: set_map)
qed

lemma canon_upper: "is_upper (canonicalize x) \<Longrightarrow> foldCase x = canonicalize x + 0x20"
  using lower_shift [of x] upper_not_lower [of x]
  by (auto simp: canonicalize_def foldCase_def split: if_splits)

lemma canon_digit: "is_digit (canonicalize x) \<Longrightarrow> foldCase x = canonicalize x"
  using lower_shift [of x] digit_not_letter [of "x - 0x20"] digit_not_letter [of x]
  by (auto simp: canonicalize_def foldCase_def split: if_splits)

lemma fold_lower: "is_lower (foldCase x) \<Longrightarrow> canonicalize x = foldCase x - 0x20"
  using upper_shift [of x] upper_not_lower [of x]
  by (auto simp: canonicalize_def foldCase_def split: if_splits)

lemma fold_digit: "is_digit (foldCase x) \<Longrightarrow> canonicalize x = foldCase x"
  using upper_shift [of x] digit_not_letter [of "x + 0x20"] digit_not_letter [of x]
  by (auto simp: canonicalize_def foldCase_def split: if_splits)

lemma unat_plus_small:
  "unat (x :: 16 word) \<le> 200 \<Longrightarrow> unat (x + 1) = unat x + 1 \<and> unat (x + 2) = unat x + 2"
proof -
  assume "unat x \<le> 200"
  then have "unat x + 1 < 65536" "unat x + 2 < 65536" by linarith+
  then show ?thesis by (simp add: unat_word_ariths)
qed

lemma upper_between: "is_upper v \<Longrightarrow> is_upper (v + 2) \<Longrightarrow> is_upper (v + 1)"
proof -
  assume a: "is_upper v" "is_upper (v + 2)"
  then have "unat v \<le> 200" by (simp add: is_upper_def word_le_nat_alt)
  from unat_plus_small [OF this] show ?thesis
    using a by (simp add: is_upper_def word_le_nat_alt)
qed

lemma lower_between: "is_lower v \<Longrightarrow> is_lower (v + 2) \<Longrightarrow> is_lower (v + 1)"
proof -
  assume a: "is_lower v" "is_lower (v + 2)"
  then have "unat v \<le> 200" by (simp add: is_lower_def word_le_nat_alt)
  from unat_plus_small [OF this] show ?thesis
    using a by (simp add: is_lower_def word_le_nat_alt)
qed

lemma digit_between: "is_digit v \<Longrightarrow> is_digit (v + 2) \<Longrightarrow> is_digit (v + 1)"
proof -
  assume a: "is_digit v" "is_digit (v + 2)"
  then have "unat v \<le> 200" by (simp add: is_digit_def word_le_nat_alt)
  from unat_plus_small [OF this] show ?thesis
    using a by (simp add: is_digit_def word_le_nat_alt)
qed

lemma upperAscending_iff_ascending3:
  "upperAscending (canonicalize a) (canonicalize b) (canonicalize c)
     \<longleftrightarrow> ascending3 (foldCase a) (foldCase b) (foldCase c)"
proof
  assume h: "upperAscending (canonicalize a) (canonicalize b) (canonicalize c)"
  then have B: "canonicalize b = canonicalize a + 1" and C: "canonicalize c = canonicalize a + 2"
    by (simp_all add: upperAscending_def)
  from h consider "is_upper (canonicalize a)" "is_upper (canonicalize c)"
    | "is_digit (canonicalize a)" "is_digit (canonicalize c)"
    by (auto simp: upperAscending_def)
  then show "ascending3 (foldCase a) (foldCase b) (foldCase c)"
  proof cases
    case 1
    then have "is_upper (canonicalize b)" using upper_between [of "canonicalize a"] B C by simp
    then have "foldCase a = canonicalize a + 0x20" "foldCase b = canonicalize b + 0x20"
      "foldCase c = canonicalize c + 0x20"
      using 1 by (simp_all add: canon_upper)
    moreover have "is_lower (canonicalize a + 0x20)" "is_lower (canonicalize c + 0x20)"
      using 1 upper_shift by simp_all
    ultimately show ?thesis by (simp add: ascending3_def B C)
  next
    case 2
    then have "is_digit (canonicalize b)" using digit_between [of "canonicalize a"] B C by simp
    then have "foldCase a = canonicalize a" "foldCase b = canonicalize b"
      "foldCase c = canonicalize c"
      using 2 by (simp_all add: canon_digit)
    then show ?thesis using 2 by (simp add: ascending3_def B C)
  qed
next
  assume h: "ascending3 (foldCase a) (foldCase b) (foldCase c)"
  then have B: "foldCase b = foldCase a + 1" and C: "foldCase c = foldCase a + 2"
    by (simp_all add: ascending3_def)
  from h consider "is_lower (foldCase a)" "is_lower (foldCase c)"
    | "is_digit (foldCase a)" "is_digit (foldCase c)"
    by (auto simp: ascending3_def)
  then show "upperAscending (canonicalize a) (canonicalize b) (canonicalize c)"
  proof cases
    case 1
    then have "is_lower (foldCase b)" using lower_between [of "foldCase a"] B C by simp
    then have "canonicalize a = foldCase a - 0x20" "canonicalize b = foldCase b - 0x20"
      "canonicalize c = foldCase c - 0x20"
      using 1 by (simp_all add: fold_lower)
    moreover have "is_upper (foldCase a - 0x20)" "is_upper (foldCase c - 0x20)"
      using 1 lower_shift by simp_all
    ultimately show ?thesis by (simp add: upperAscending_def B C)
  next
    case 2
    then have "is_digit (foldCase b)" using digit_between [of "foldCase a"] B C by simp
    then have "canonicalize a = foldCase a" "canonicalize b = foldCase b"
      "canonicalize c = foldCase c"
      using 2 by (simp_all add: fold_digit)
    then show ?thesis using 2 by (simp add: upperAscending_def B C)
  qed
qed

lemma containsSubstring3:
  "containsSubstring [A, B, C] s
     \<longleftrightarrow> (\<exists>i < length s - 2. s ! i = A \<and> s ! (i + 1) = B \<and> s ! (i + 2) = C)"
proof -
  have "length [A, B, C] = 3" by simp
  then have "containsSubstring [A, B, C] s \<longleftrightarrow> (\<exists>i \<le> length s. take 3 (drop i s) = [A, B, C])"
    by (simp only: containsSubstring_def)
  also have "\<dots> \<longleftrightarrow> (\<exists>i \<le> length s.
      i < length s - 2 \<and> s ! i = A \<and> s ! (i + 1) = B \<and> s ! (i + 2) = C)"
    by (simp only: take3_drop_iff)
  also have "\<dots> \<longleftrightarrow> (\<exists>i < length s - 2. s ! i = A \<and> s ! (i + 1) = B \<and> s ! (i + 2) = C)"
  proof
    assume "\<exists>i \<le> length s. i < length s - 2 \<and> s ! i = A \<and> s ! (i + 1) = B \<and> s ! (i + 2) = C"
    then show "\<exists>i < length s - 2. s ! i = A \<and> s ! (i + 1) = B \<and> s ! (i + 2) = C" by blast
  next
    assume "\<exists>i < length s - 2. s ! i = A \<and> s ! (i + 1) = B \<and> s ! (i + 2) = C"
    then obtain i where i: "i < length s - 2" "s ! i = A \<and> s ! (i + 1) = B \<and> s ! (i + 2) = C"
      by blast
    then have "i \<le> length s" by linarith
    then show "\<exists>i \<le> length s. i < length s - 2 \<and> s ! i = A \<and> s ! (i + 1) = B \<and> s ! (i + 2) = C"
      using i by blast
  qed
  finally show ?thesis .
qed

lemma table_triples:
  assumes "T \<in> set (map (map canonicalize) sequentialPatterns)"
  shows "\<exists>A B C. T = [A, B, C]"
proof -
  from assms have "T \<in> (\<lambda>k. [of_nat k, of_nat k + 1, of_nat k + 2]) ` set ([65..<89] @ [48..<56])"
    by (simp only: canonical_table set_map)
  then show ?thesis by blast
qed

lemma hasSequential_iff: "hasSequential p \<longleftrightarrow> spec_ascendingRun p"
proof -
  let ?cp = "map canonicalize p"
  let ?tab = "map (map canonicalize) sequentialPatterns"
  have "hasSequential p \<longleftrightarrow> (\<exists>T \<in> set ?tab. containsSubstring T ?cp)"
    by (simp add: hasSequential_def list_ex_iff test_literal_i_def test_literal_iff)
  also have "\<dots> \<longleftrightarrow> (\<exists>i < length p - 2. [?cp ! i, ?cp ! (i + 1), ?cp ! (i + 2)] \<in> set ?tab)"
  proof
    assume "\<exists>T \<in> set ?tab. containsSubstring T ?cp"
    then obtain T where T: "T \<in> set ?tab" "containsSubstring T ?cp" by blast
    from table_triples [OF T(1)] obtain A B C where eq: "T = [A, B, C]" by blast
    from T(2) obtain i where "i < length ?cp - 2" "?cp ! i = A" "?cp ! (i + 1) = B"
      "?cp ! (i + 2) = C"
      unfolding eq containsSubstring3 by blast
    then have "i < length p - 2" "[?cp ! i, ?cp ! (i + 1), ?cp ! (i + 2)] = T"
      by (simp_all only: eq length_map)
    then show "\<exists>i < length p - 2. [?cp ! i, ?cp ! (i + 1), ?cp ! (i + 2)] \<in> set ?tab"
      using T(1) by metis
  next
    assume "\<exists>i < length p - 2. [?cp ! i, ?cp ! (i + 1), ?cp ! (i + 2)] \<in> set ?tab"
    then obtain i where i: "i < length p - 2"
      "[?cp ! i, ?cp ! (i + 1), ?cp ! (i + 2)] \<in> set ?tab" by blast
    have "containsSubstring [?cp ! i, ?cp ! (i + 1), ?cp ! (i + 2)] ?cp"
      unfolding containsSubstring3 using i(1) by (intro exI [of _ i]) simp
    then show "\<exists>T \<in> set ?tab. containsSubstring T ?cp" using i(2) by blast
  qed
  also have "\<dots> \<longleftrightarrow> (\<exists>i < length p - 2.
      upperAscending (canonicalize (p ! i)) (canonicalize (p ! (i + 1))) (canonicalize (p ! (i + 2))))"
  proof -
    have "[?cp ! i, ?cp ! (i + 1), ?cp ! (i + 2)] \<in> set ?tab \<longleftrightarrow>
      upperAscending (canonicalize (p ! i)) (canonicalize (p ! (i + 1))) (canonicalize (p ! (i + 2)))"
      if "i < length p - 2" for i
    proof -
      have "?cp ! i = canonicalize (p ! i)" "?cp ! (i + 1) = canonicalize (p ! (i + 1))"
        "?cp ! (i + 2) = canonicalize (p ! (i + 2))"
        using that by simp_all
      then show ?thesis by (simp only: table_iff_upperAscending)
    qed
    then show ?thesis by blast
  qed
  also have "\<dots> \<longleftrightarrow> spec_ascendingRun p"
    by (simp only: upperAscending_iff_ascending3 spec_ascendingRun_def)
  finally show ?thesis .
qed


section \<open>The rounding error of the complexity sub-score\<close>

lemma rnd_err_le2:
  assumes "\<bar>x\<bar> \<le> 2"
  shows "\<bar>rnd x - x\<bar> \<le> 1 / 2 ^ 52"
proof -
  have "\<bar>rnd x - x\<bar> \<le> \<bar>x\<bar> / 2 ^ 53" by (rule rnd_err)
  also have "\<dots> \<le> 2 / 2 ^ 53" using assms by (intro divide_right_mono) simp_all
  finally show ?thesis by simp
qed

lemma lit_err:
  assumes "\<bar>d\<bar> \<le> 1"
  shows "\<bar>lit d - d\<bar> \<le> 1 / 2 ^ 53"
proof -
  have "\<bar>rnd d - d\<bar> \<le> \<bar>d\<bar> / 2 ^ 53" by (rule rnd_err)
  also have "\<dots> \<le> 1 / 2 ^ 53" using assms by (intro divide_right_mono) simp_all
  finally show ?thesis by (simp add: lit_def)
qed

lemma step_add_err:
  assumes "\<bar>a - r\<bar> \<le> e" "e \<le> 1 / 8" "\<bar>r\<bar> \<le> 1" "0 \<le> d" "d \<le> 3 / 4"
  shows "\<bar>(if b then fl_add a (lit d) else a) - (r + (if b then d else 0))\<bar> \<le> e + 1 / 2 ^ 51"
proof (cases b)
  case True
  have l: "\<bar>lit d - d\<bar> \<le> 1 / 2 ^ 53" using assms by (intro lit_err) simp
  have small: "(1::rat) / 2 ^ 53 \<le> 1 / 8" by simp
  have "\<bar>a + lit d\<bar> \<le> 2" using assms l small by linarith
  then have "\<bar>rnd (a + lit d) - (a + lit d)\<bar> \<le> 1 / 2 ^ 52" by (rule rnd_err_le2)
  then have "\<bar>rnd (a + lit d) - (r + d)\<bar> \<le> e + 1 / 2 ^ 53 + 1 / 2 ^ 52"
    using assms(1) l by linarith
  then show ?thesis using True by (simp add: fl_add_def)
next
  case False
  then show ?thesis using assms(1) by simp
qed

lemma step_sub_err:
  assumes "\<bar>a - r\<bar> \<le> e" "e \<le> 1 / 8" "\<bar>r\<bar> \<le> 1" "0 \<le> d" "d \<le> 3 / 4"
  shows "\<bar>(if b then fl_sub a (lit d) else a) - (r - (if b then d else 0))\<bar> \<le> e + 1 / 2 ^ 51"
proof (cases b)
  case True
  have l: "\<bar>lit d - d\<bar> \<le> 1 / 2 ^ 53" using assms by (intro lit_err) simp
  have small: "(1::rat) / 2 ^ 53 \<le> 1 / 8" by simp
  have "\<bar>a - lit d\<bar> \<le> 2" using assms l small by linarith
  then have "\<bar>rnd (a - lit d) - (a - lit d)\<bar> \<le> 1 / 2 ^ 52" by (rule rnd_err_le2)
  then have "\<bar>rnd (a - lit d) - (r - d)\<bar> \<le> e + 1 / 2 ^ 53 + 1 / 2 ^ 52"
    using assms(1) l by linarith
  then show ?thesis using True by (simp add: fl_sub_def)
next
  case False
  then show ?thesis using assms(1) by simp
qed

lemma clamp_lipschitz:
  "\<bar>max 0 (min 1 x) - max 0 (min 1 y)\<bar> \<le> \<bar>x - y\<bar>" for x y :: rat
  by (simp add: max_def min_def abs_if)

lemma complexityOf_err:
  "\<bar>complexityOf c r s m d n - complexityFormula c r s m d n\<bar> \<le> 1 / 2 ^ 48"
proof -
  define a1 where "a1 = (if c then fl_sub 0 (lit (3 / 10)) else 0)"
  define a2 where "a2 = (if r then fl_sub a1 (lit (2 / 10)) else a1)"
  define a3 where "a3 = (if s then fl_sub a2 (lit (2 / 10)) else a2)"
  define a4 where "a4 = (if m then fl_add a3 (lit (2 / 10)) else a3)"
  define a5 where "a5 = (if d then fl_add a4 (lit (2 / 10)) else a4)"
  define a6 where "a6 = (if 12 \<le> n then fl_add a5 (lit (3 / 10)) else a5)"
  define a7 where "a7 = (if 16 \<le> n then fl_add a6 (lit (2 / 10)) else a6)"
  define r1 :: rat where "r1 = 0 - (if c then 3 / 10 else 0)"
  define r2 :: rat where "r2 = r1 - (if r then 2 / 10 else 0)"
  define r3 :: rat where "r3 = r2 - (if s then 2 / 10 else 0)"
  define r4 :: rat where "r4 = r3 + (if m then 2 / 10 else 0)"
  define r5 :: rat where "r5 = r4 + (if d then 2 / 10 else 0)"
  define r6 :: rat where "r6 = r5 + (if 12 \<le> n then 3 / 10 else 0)"
  define r7 :: rat where "r7 = r6 + (if 16 \<le> n then 2 / 10 else 0)"
  have b1: "- 3 / 10 \<le> r1" "r1 \<le> 0" by (simp_all add: r1_def)
  have b2: "- 5 / 10 \<le> r2" "r2 \<le> 0" using b1 by (simp_all add: r2_def)
  have b3: "- 7 / 10 \<le> r3" "r3 \<le> 0" using b2 by (simp_all add: r3_def)
  have b4: "- 7 / 10 \<le> r4" "r4 \<le> 2 / 10" using b3 by (simp_all add: r4_def)
  have b5: "- 7 / 10 \<le> r5" "r5 \<le> 4 / 10" using b4 by (simp_all add: r5_def)
  have b6: "- 7 / 10 \<le> r6" "r6 \<le> 7 / 10" using b5 by (simp_all add: r6_def)
  have b7: "- 7 / 10 \<le> r7" "r7 \<le> 9 / 10" using b6 by (simp_all add: r7_def)
  have e1: "\<bar>a1 - r1\<bar> \<le> 0 + 1 / 2 ^ 51"
    unfolding a1_def r1_def by (rule step_sub_err) simp_all
  have e2: "\<bar>a2 - r2\<bar> \<le> (0 + 1 / 2 ^ 51) + 1 / 2 ^ 51"
    unfolding a2_def r2_def using b1 by (intro step_sub_err e1) (simp_all add: abs_le_iff)
  have e3: "\<bar>a3 - r3\<bar> \<le> (0 + 1 / 2 ^ 51 + 1 / 2 ^ 51) + 1 / 2 ^ 51"
    unfolding a3_def r3_def using b2 by (intro step_sub_err e2) (simp_all add: abs_le_iff)
  have e4: "\<bar>a4 - r4\<bar> \<le> (0 + 1 / 2 ^ 51 + 1 / 2 ^ 51 + 1 / 2 ^ 51) + 1 / 2 ^ 51"
    unfolding a4_def r4_def using b3 by (intro step_add_err e3) (simp_all add: abs_le_iff)
  have e5: "\<bar>a5 - r5\<bar> \<le> (0 + 1 / 2 ^ 51 + 1 / 2 ^ 51 + 1 / 2 ^ 51 + 1 / 2 ^ 51) + 1 / 2 ^ 51"
    unfolding a5_def r5_def using b4 by (intro step_add_err e4) (simp_all add: abs_le_iff)
  have e6: "\<bar>a6 - r6\<bar>
      \<le> (0 + 1 / 2 ^ 51 + 1 / 2 ^ 51 + 1 / 2 ^ 51 + 1 / 2 ^ 51 + 1 / 2 ^ 51) + 1 / 2 ^ 51"
    unfolding a6_def r6_def using b5 by (intro step_add_err e5) (simp_all add: abs_le_iff)
  have e7: "\<bar>a7 - r7\<bar>
      \<le> (0 + 1 / 2 ^ 51 + 1 / 2 ^ 51 + 1 / 2 ^ 51 + 1 / 2 ^ 51 + 1 / 2 ^ 51 + 1 / 2 ^ 51)
          + 1 / 2 ^ 51"
    unfolding a7_def r7_def using b6 by (intro step_add_err e6) (simp_all add: abs_le_iff)
  have "\<bar>(if True then fl_add a7 (lit (7 / 10)) else a7) - (r7 + (if True then 7 / 10 else 0))\<bar>
      \<le> (0 + 1 / 2 ^ 51 + 1 / 2 ^ 51 + 1 / 2 ^ 51 + 1 / 2 ^ 51 + 1 / 2 ^ 51 + 1 / 2 ^ 51
          + 1 / 2 ^ 51) + 1 / 2 ^ 51"
    using b7 by (intro step_add_err e7) (simp_all add: abs_le_iff)
  then have e8: "\<bar>fl_add a7 (lit (7 / 10)) - (r7 + 7 / 10)\<bar> \<le> 1 / 2 ^ 48" by simp
  have cof: "complexityOf c r s m d n = max 0 (min 1 (fl_add a7 (lit (7 / 10))))"
    unfolding complexityOf_def Let_def a7_def a6_def a5_def a4_def a3_def a2_def a1_def ..
  have cfo: "complexityFormula c r s m d n = max 0 (min 1 (r7 + 7 / 10))"
    unfolding complexityFormula_def r7_def r6_def r5_def r4_def r3_def r2_def r1_def
    by (simp add: algebra_simps)
  show ?thesis
    unfolding cof cfo using clamp_lipschitz [of "fl_add a7 (lit (7 / 10))" "r7 + 7 / 10"] e8
    by linarith
qed


section \<open>The complexity sub-score against the formula\<close>

lemma hasCommonPattern_iff: "hasCommonPattern p \<longleftrightarrow> spec_denylisted p"
  by (simp add: hasCommonPattern_def spec_denylisted_def list_ex_iff test_literal_iff
      commonPatterns_def denylist_def)

lemma hasRepeats_iff:
  assumes "\<not> lineTerminatorRun p"
  shows "hasRepeats p \<longleftrightarrow> tripleRun p"
proof
  assume "hasRepeats p"
  then show "tripleRun p" by (rule hasRepeats_imp_tripleRun)
next
  assume "tripleRun p"
  then obtain i where i: "i < length p - 2" "p ! (i + 1) = p ! i" "p ! (i + 2) = p ! i"
    unfolding tripleRun_def by blast
  then have "\<not> lineTerminator (p ! i)" using assms unfolding lineTerminatorRun_def by blast
  then show "hasRepeats p" unfolding hasRepeats_def test_repeat_iff using i by blast
qed

lemma mixedCase_iff:
  "test_class is_lower p \<and> test_class is_upper p \<longleftrightarrow> spec_mixedCase p"
  by (simp add: test_class_def list_ex_iff spec_mixedCase_def)

lemma digitAndLetter_iff:
  "test_class is_digit p \<and> test_class is_letter p \<longleftrightarrow> spec_digitAndLetter p"
  by (simp add: test_class_def list_ex_iff spec_digitAndLetter_def)

text \<open>
  Claim C3, amended. For every string without a run of three identical line terminators
  the complexity sub-score agrees with the formula of the specification (baseline 0.7,
  minus 0.3 for a denylisted substring of the lowercased password, minus 0.2 for a code
  unit three times in a row, minus 0.2 for an ascending run of three letters or digits
  whatever the case, plus 0.2 for mixed case, plus 0.2 for a digit with a letter, plus 0.3
  from 12 code units and 0.2 more from 16, clamped once to [0, 1]) up to the rounding of
  the double arithmetic, an absolute error of at most \<open>2 powi (-48)\<close>.
\<close>

theorem complexity_matches_formula:
  assumes "\<not> lineTerminatorRun p"
  shows "\<bar>calculateComplexity p - complexity_spec p\<bar> \<le> 1 / 2 ^ 48"
proof -
  have "calculateComplexity p =
      complexityOf (spec_denylisted p) (tripleRun p) (spec_ascendingRun p)
        (spec_mixedCase p) (spec_digitAndLetter p) (length p)"
    unfolding calculateComplexity_flags
    by (simp only: hasCommonPattern_iff hasRepeats_iff [OF assms] hasSequential_iff
        mixedCase_iff digitAndLetter_iff)
  then show ?thesis unfolding complexity_spec_def by (simp only: complexityOf_err)
qed

lemma flags_three_lf:
  "\<not> test_class is_lower [0x0A, 0x0A, 0x0A]" "\<not> test_class is_upper [0x0A, 0x0A, 0x0A]"
  "\<not> test_class is_digit [0x0A, 0x0A, 0x0A]" "\<not> test_class is_letter [0x0A, 0x0A, 0x0A]"
  "\<not> test_class is_special [0x0A, 0x0A, 0x0A]" "\<not> hasCommonPattern [0x0A, 0x0A, 0x0A]"
  "\<not> hasRepeats [0x0A, 0x0A, 0x0A]" "\<not> hasSequential [0x0A, 0x0A, 0x0A]"
  by code_simp+

lemma spec_flags_three_lf:
  "\<not> spec_denylisted [0x0A, 0x0A, 0x0A]" "tripleRun [0x0A, 0x0A, 0x0A]"
  "\<not> spec_ascendingRun [0x0A, 0x0A, 0x0A]" "\<not> spec_mixedCase [0x0A, 0x0A, 0x0A]"
  "\<not> spec_digitAndLetter [0x0A, 0x0A, 0x0A]"
proof -
  show "tripleRun [0x0A, 0x0A, 0x0A]" by code_simp
qed (simp_all add: flags_three_lf flip: hasCommonPattern_iff hasSequential_iff mixedCase_iff
    digitAndLetter_iff)

lemma spec_flags_twelve_spaces:
  "\<not> spec_denylisted (replicate 12 0x20)" "tripleRun (replicate 12 0x20)"
  "\<not> spec_ascendingRun (replicate 12 0x20)" "\<not> spec_mixedCase (replicate 12 0x20)"
  "\<not> spec_digitAndLetter (replicate 12 0x20)" "\<not> lineTerminatorRun (replicate 12 0x20)"
proof -
  show "tripleRun (replicate 12 0x20)" by code_simp
  show "\<not> lineTerminatorRun (replicate 12 0x20)" by code_simp
qed (simp_all add: flags_twelve_spaces flip: hasCommonPattern_iff hasSequential_iff
    mixedCase_iff digitAndLetter_iff)

text \<open>
  Claim C3, as stated, fails twice. Three line feeds in a row are a repeat and are not
  penalised, since \<open>.\<close> does not match a line terminator: the sub-score is 0.7 where the
  formula gives 0.5. And for twelve spaces the sub-score is neither the value 0.8 of the
  formula nor the double nearest to it, since the code sums the adjustments from 0 and
  adds the baseline last.
\<close>

theorem complexity_formula_fails:
  "1 / 10 < \<bar>calculateComplexity [0x0A, 0x0A, 0x0A] - complexity_spec [0x0A, 0x0A, 0x0A]\<bar>
   \<and> calculateComplexity (replicate 12 0x20) \<noteq> rnd (complexity_spec (replicate 12 0x20))
   \<and> calculateComplexity (replicate 12 0x20) \<noteq> complexity_spec (replicate 12 0x20)"
proof -
  have 1: "calculateComplexity [0x0A, 0x0A, 0x0A] = 3152519739159347 / 4503599627370496"
    unfolding score_eval Let_def by (simp add: flags_three_lf fl_eval)
  have 2: "complexity_spec [0x0A, 0x0A, 0x0A] = 1 / 2"
    by (simp add: complexity_spec_def complexityFormula_def spec_flags_three_lf)
  have 3: "calculateComplexity (replicate 12 0x20) = 7205759403792793 / 9007199254740992"
    unfolding score_eval Let_def by (simp add: flags_twelve_spaces fl_eval)
  have 4: "complexity_spec (replicate 12 0x20) = 4 / 5"
    by (simp add: complexity_spec_def complexityFormula_def spec_flags_twelve_spaces)
  have 5: "rnd (4 / 5) = 3602879701896397 / 4503599627370496"
    by (simp add: fl_eval)
  show ?thesis unfolding 1 2 3 4 5 by simp
qed

text \<open>Twelve spaces hold no line terminator; there the bound is met and not by equality.\<close>

theorem complexity_matches_formula_witness:
  "\<not> lineTerminatorRun (replicate 12 0x20)
   \<and> \<bar>calculateComplexity (replicate 12 0x20) - complexity_spec (replicate 12 0x20)\<bar>
       \<le> 1 / 2 ^ 48"
  using complexity_matches_formula [of "replicate 12 0x20"] spec_flags_twelve_spaces(6)
  by simp


section \<open>Appending a new character class\<close>

lemma rnd_err_le128:
  assumes "\<bar>x\<bar> \<le> 128"
  shows "\<bar>rnd x - x\<bar> \<le> 1 / 2 ^ 46"
proof -
  have "\<bar>rnd x - x\<bar> \<le> \<bar>x\<bar> / 2 ^ 53" by (rule rnd_err)
  also have "\<dots> \<le> 128 / 2 ^ 53" using assms by (intro divide_right_mono) simp_all
  finally show ?thesis by simp
qed

lemma addIf_err:
  assumes "\<bar>t - r\<bar> \<le> e" "e \<le> 1" "0 \<le> r" "r \<le> 100"
  shows "\<bar>addIf b 15 t - (r + (if b then 15 else 0))\<bar> \<le> e + 1 / 2 ^ 46"
proof (cases b)
  case True
  have "\<bar>t + 15\<bar> \<le> 128" using assms by linarith
  then have "\<bar>rnd (t + 15) - (t + 15)\<bar> \<le> 1 / 2 ^ 46" by (rule rnd_err_le128)
  then have "\<bar>rnd (t + 15) - (r + 15)\<bar> \<le> e + 1 / 2 ^ 46" using assms(1) by linarith
  then show ?thesis using True by (simp add: addIf_def fl_add_def)
next
  case False
  then show ?thesis using assms(1) by (simp add: addIf_def)
qed

lemma classTerms_err:
  assumes "\<bar>t - r\<bar> \<le> 1 / 2 ^ 46" "0 \<le> r" "r \<le> 20"
  shows "\<bar>classTerms p t - (r + classSum p)\<bar> \<le> 5 / 2 ^ 46"
proof -
  define l :: rat where "l = (if test_class is_lower p then 15 else 0)"
  define u :: rat where "u = (if test_class is_upper p then 15 else 0)"
  define d :: rat where "d = (if test_class is_digit p then 15 else 0)"
  define s :: rat where "s = (if test_class is_special p then 15 else 0)"
  have b: "0 \<le> l" "l \<le> 15" "0 \<le> u" "u \<le> 15" "0 \<le> d" "d \<le> 15" "0 \<le> s" "s \<le> 15"
    by (simp_all add: l_def u_def d_def s_def)
  let ?t1 = "addIf (test_class is_lower p) 15 t"
  let ?t2 = "addIf (test_class is_upper p) 15 ?t1"
  let ?t3 = "addIf (test_class is_digit p) 15 ?t2"
  let ?t4 = "addIf (test_class is_special p) 15 ?t3"
  have 1: "\<bar>?t1 - (r + l)\<bar> \<le> 1 / 2 ^ 46 + 1 / 2 ^ 46"
    unfolding l_def using assms by (intro addIf_err) simp_all
  have 2: "\<bar>?t2 - (r + l + u)\<bar> \<le> (1 / 2 ^ 46 + 1 / 2 ^ 46) + 1 / 2 ^ 46"
    unfolding u_def using assms b by (intro addIf_err 1) simp_all
  have 3: "\<bar>?t3 - (r + l + u + d)\<bar> \<le> (1 / 2 ^ 46 + 1 / 2 ^ 46 + 1 / 2 ^ 46) + 1 / 2 ^ 46"
    unfolding d_def using assms b by (intro addIf_err 2) simp_all
  have 4: "\<bar>?t4 - (r + l + u + d + s)\<bar>
      \<le> (1 / 2 ^ 46 + 1 / 2 ^ 46 + 1 / 2 ^ 46 + 1 / 2 ^ 46) + 1 / 2 ^ 46"
    unfolding s_def using assms b by (intro addIf_err 3) simp_all
  have e1: "classTerms p t = ?t4" by (simp add: classTerms_def)
  have e2: "r + classSum p = r + l + u + d + s"
    by (simp add: classSum_def l_def u_def d_def s_def)
  have e3: "(1 / 2 ^ 46 + 1 / 2 ^ 46 + 1 / 2 ^ 46 + 1 / 2 ^ 46) + 1 / 2 ^ 46 = (5::rat) / 2 ^ 46"
    by simp
  show ?thesis unfolding e1 e2 using 4 unfolding e3 .
qed

lemma total_err: "\<bar>snd (validatePasswordStrength p) - referenceTotal p\<bar> \<le> 1 / 2 ^ 42"
proof -
  let ?ls = "lengthScore p"
  let ?t0 = "fl_add 0 ?ls"
  let ?c = "calculateComplexity p"
  let ?cf = "complexityFormula (hasCommonPattern p) (hasRepeats p) (hasSequential p)
         (test_class is_lower p \<and> test_class is_upper p)
         (test_class is_digit p \<and> test_class is_letter p) (length p)"
  let ?m = "fl_mul ?c 20"
  have ls: "0 \<le> ?ls" "?ls \<le> 20" using lengthScore_range by simp_all
  have "\<bar>rnd ?ls - ?ls\<bar> \<le> 1 / 2 ^ 46" using ls by (intro rnd_err_le128) simp
  then have t0: "\<bar>?t0 - ?ls\<bar> \<le> 1 / 2 ^ 46" by (simp add: fl_add_def)
  have ct: "\<bar>classTerms p ?t0 - (?ls + classSum p)\<bar> \<le> 5 / 2 ^ 46"
    using t0 ls by (rule classTerms_err)
  have "rnd 0 \<le> rnd ?ls" "rnd ?ls \<le> rnd 20" using ls by (simp_all add: rnd_mono del: rnd_0)
  then have t0r: "0 \<le> ?t0" "?t0 \<le> 20" by (simp_all add: fl_add_def rnd_consts)
  have ctr: "0 \<le> classTerms p ?t0" "classTerms p ?t0 \<le> 80"
    using classTerms_range [OF t0r] by simp_all
  have c: "0 \<le> ?c" "?c \<le> 1" using calculateComplexity_range by simp_all
  have ce: "\<bar>?c - ?cf\<bar> \<le> 1 / 2 ^ 48"
    unfolding calculateComplexity_flags by (rule complexityOf_err)
  have re: "\<bar>rnd (?c * 20) - ?c * 20\<bar> \<le> 1 / 2 ^ 46" using c by (intro rnd_err_le128) simp
  have "?c * 20 - 20 * ?cf = 20 * (?c - ?cf)" by (simp add: algebra_simps)
  then have "\<bar>?c * 20 - 20 * ?cf\<bar> = 20 * \<bar>?c - ?cf\<bar>" by (simp only: abs_mult)
  also have "\<dots> \<le> 20 * (1 / 2 ^ 48)" using ce by (intro mult_left_mono) simp_all
  finally have se: "\<bar>?c * 20 - 20 * ?cf\<bar> \<le> 20 / 2 ^ 48" by simp
  have me: "\<bar>?m - 20 * ?cf\<bar> \<le> 1 / 2 ^ 46 + 20 / 2 ^ 48"
    unfolding fl_mul_def using re se by linarith
  have "rnd 0 \<le> rnd (?c * 20)" "rnd (?c * 20) \<le> rnd 20"
    using c by (simp_all add: rnd_mono del: rnd_0)
  then have mr: "0 \<le> ?m" "?m \<le> 20" by (simp_all add: fl_mul_def rnd_consts)
  have "\<bar>classTerms p ?t0 + ?m\<bar> \<le> 128" using ctr mr by linarith
  then have "\<bar>rnd (classTerms p ?t0 + ?m) - (classTerms p ?t0 + ?m)\<bar> \<le> 1 / 2 ^ 46"
    by (rule rnd_err_le128)
  then have "\<bar>fl_add (classTerms p ?t0) ?m - (?ls + classSum p + 20 * ?cf)\<bar>
      \<le> 1 / 2 ^ 46 + 5 / 2 ^ 46 + (1 / 2 ^ 46 + 20 / 2 ^ 48)"
    using ct me unfolding fl_add_def by linarith
  also have "\<dots> \<le> 1 / 2 ^ 42" by simp
  finally show ?thesis by (simp add: total_unfold referenceTotal_def)
qed

lemma test_class_append: "test_class cls p \<Longrightarrow> test_class cls (p @ s)"
  by (auto simp: test_class_def list_ex_iff)

lemma classSum_append:
  assumes "newClass p s"
  shows "classSum p + 15 \<le> classSum (p @ s)"
proof -
  define f :: "bool \<Rightarrow> rat" where "f b = (if b then 15 else 0)" for b
  have mono: "f (test_class cls p) \<le> f (test_class cls (p @ s))" for cls
    using test_class_append [of cls p s] by (simp add: f_def)
  have step: "test_class cls (p @ s) \<Longrightarrow> \<not> test_class cls p
      \<Longrightarrow> f (test_class cls p) + 15 \<le> f (test_class cls (p @ s))" for cls
    by (simp add: f_def)
  have cs: "classSum q = f (test_class is_lower q) + f (test_class is_upper q)
      + f (test_class is_digit q) + f (test_class is_special q)" for q
    by (simp add: classSum_def f_def)
  from assms consider
      "test_class is_lower (p @ s)" "\<not> test_class is_lower p"
    | "test_class is_upper (p @ s)" "\<not> test_class is_upper p"
    | "test_class is_digit (p @ s)" "\<not> test_class is_digit p"
    | "test_class is_special (p @ s)" "\<not> test_class is_special p"
    unfolding newClass_def by blast
  then show ?thesis
  proof cases
    case 1
    from step [OF this] mono [of is_upper] mono [of is_digit] mono [of is_special]
    show ?thesis unfolding cs by linarith
  next
    case 2
    from step [OF this] mono [of is_lower] mono [of is_digit] mono [of is_special]
    show ?thesis unfolding cs by linarith
  next
    case 3
    from step [OF this] mono [of is_lower] mono [of is_upper] mono [of is_special]
    show ?thesis unfolding cs by linarith
  next
    case 4
    from step [OF this] mono [of is_lower] mono [of is_upper] mono [of is_digit]
    show ?thesis unfolding cs by linarith
  qed
qed

lemma complexityFormula_append:
  assumes "m \<longrightarrow> m'" "d \<longrightarrow> d'" "n \<le> n'"
  shows "complexityFormula c r s m d n - 7 / 10 \<le> complexityFormula c' r' s' m' d' n'"
proof -
  define pen :: "bool \<Rightarrow> bool \<Rightarrow> bool \<Rightarrow> rat" where
    "pen a b e = (if a then 3 / 10 else 0) + (if b then 2 / 10 else 0) + (if e then 2 / 10 else 0)"
    for a b e
  define bon :: "bool \<Rightarrow> bool \<Rightarrow> nat \<Rightarrow> rat" where
    "bon a b k = (if a then 2 / 10 else 0) + (if b then 2 / 10 else 0)
       + (if 12 \<le> k then 3 / 10 else 0) + (if 16 \<le> k then 2 / 10 else 0)" for a b k
  have cf: "complexityFormula a b e f g k = max 0 (min 1 (7 / 10 - pen a b e + bon f g k))"
    for a b e f g k
    by (simp add: complexityFormula_def pen_def bon_def algebra_simps)
  have p0: "0 \<le> pen c r s" by (simp add: pen_def)
  have p1: "pen c' r' s' \<le> 7 / 10" by (simp add: pen_def)
  have b1: "(if m then 2 / 10 else 0 :: rat) \<le> (if m' then 2 / 10 else 0)"
    using assms(1) by simp
  have b2: "(if d then 2 / 10 else 0 :: rat) \<le> (if d' then 2 / 10 else 0)"
    using assms(2) by simp
  have b3: "(if 12 \<le> n then 3 / 10 else 0 :: rat) \<le> (if 12 \<le> n' then 3 / 10 else 0)"
    using assms(3) by simp
  have b4: "(if 16 \<le> n then 2 / 10 else 0 :: rat) \<le> (if 16 \<le> n' then 2 / 10 else 0)"
    using assms(3) by simp
  have bm: "bon m d n \<le> bon m' d' n'" unfolding bon_def using b1 b2 b3 b4 by linarith
  have "(7 / 10 - pen c r s + bon m d n) - 7 / 10 \<le> 7 / 10 - pen c' r' s' + bon m' d' n'"
    using p0 p1 bm by linarith
  then show ?thesis unfolding cf by (simp add: max_def min_def) 
qed

lemma referenceTotal_append:
  assumes "newClass p s"
  shows "referenceTotal p + 1 \<le> referenceTotal (p @ s)"
proof -
  have l: "lengthScore p \<le> lengthScore (p @ s)" by (intro lengthScore_mono) simp
  have c: "classSum p + 15 \<le> classSum (p @ s)" using assms by (rule classSum_append)
  have "complexityFormula (hasCommonPattern p) (hasRepeats p) (hasSequential p)
         (test_class is_lower p \<and> test_class is_upper p)
         (test_class is_digit p \<and> test_class is_letter p) (length p) - 7 / 10
      \<le> complexityFormula (hasCommonPattern (p @ s)) (hasRepeats (p @ s)) (hasSequential (p @ s))
         (test_class is_lower (p @ s) \<and> test_class is_upper (p @ s))
         (test_class is_digit (p @ s) \<and> test_class is_letter (p @ s)) (length (p @ s))"
    by (intro complexityFormula_append) (simp_all add: test_class_append)
  then show ?thesis unfolding referenceTotal_def using l c by linarith
qed

lemma total_strictly_grows:
  assumes "newClass p s"
  shows "snd (validatePasswordStrength p) < snd (validatePasswordStrength (p @ s))"
proof -
  have small: "(1::rat) / 2 ^ 42 \<le> 1 / 4" by simp
  show ?thesis
    using total_err [of p] total_err [of "p @ s"] referenceTotal_append [OF assms] small
    by linarith
qed

text \<open>
  Claim C4. When \<open>p @ s\<close> has a code unit of a class (lower case, upper case, digit,
  special) that \<open>p\<close> has none of, the total of \<open>p @ s\<close> is at least the total of \<open>p\<close>.
\<close>

theorem new_class_never_decreases_total:
  assumes "(test_class is_lower (p @ s) \<and> \<not> test_class is_lower p)
      \<or> (test_class is_upper (p @ s) \<and> \<not> test_class is_upper p)
      \<or> (test_class is_digit (p @ s) \<and> \<not> test_class is_digit p)
      \<or> (test_class is_special (p @ s) \<and> \<not> test_class is_special p)"
  shows "snd (validatePasswordStrength p) \<le> snd (validatePasswordStrength (p @ s))"
proof -
  have "newClass p s" using assms by (simp add: newClass_def)
  then show ?thesis using total_strictly_grows [of p s] by simp
qed

text \<open>Appending the digit \<open>1\<close> to \<open>abc\<close>.\<close>

theorem new_class_never_decreases_total_witness:
  "test_class is_digit (js ''abc'' @ js ''1'') \<and> \<not> test_class is_digit (js ''abc'')
   \<and> snd (validatePasswordStrength (js ''abc''))
       \<le> snd (validatePasswordStrength (js ''abc'' @ js ''1''))"
proof -
  have h: "test_class is_digit (js ''abc'' @ js ''1'') \<and> \<not> test_class is_digit (js ''abc'')"
    by code_simp
  then show ?thesis using new_class_never_decreases_total [of "js ''abc''" "js ''1''"] by blast
qed

end
